theory Spec2Isabelle
  imports Complex_Main "HOL-Library.Sublist"
begin

section \<open>JavaScript values\<close>

text \<open>
  Numbers that reach a template literal or \<^verbatim>\<open>JSON.stringify\<close> are the integers of the
  list query (page, limit, price bounds); they are modelled as \<^typ>\<open>int\<close> and printed in
  decimal, as \<^verbatim>\<open>Number::toString\<close> prints an integer-valued number below \<open>10\<^sup>2\<^sup>1\<close>.
  Strings are lists of code units below 256.
\<close>

definition digit_char :: "nat \<Rightarrow> char" where
  "digit_char d = char_of (of_char CHR ''0'' + d)"

function decimal_digits :: "nat \<Rightarrow> string" where
  "decimal_digits n =
     (if 10 \<le> n then decimal_digits (n div 10) @ [digit_char (n mod 10)]
      else [digit_char n])"
  by pat_completeness auto
termination
  by (relation "measure (\<lambda>n. n)") auto

declare decimal_digits.simps [simp del]

definition number_toString :: "int \<Rightarrow> string" where
  "number_toString i =
     (if 0 \<le> i then decimal_digits (nat i) else CHR ''-'' # decimal_digits (nat (- i)))"

text \<open>
  \<^verbatim>\<open>Math.ceil(total / limit)\<close> on a count and an integer: the quotient by zero is
  \<^verbatim>\<open>NaN\<close> for \<open>0 / 0\<close> and \<^verbatim>\<open>Infinity\<close> otherwise, so the result is not always an
  integer.
\<close>

datatype js_number = Finite int | PosInfinity | NaN

definition Math_ceil_div :: "nat \<Rightarrow> int \<Rightarrow> js_number" where
  "Math_ceil_div n d =
     (if d = 0 then (if n = 0 then NaN else PosInfinity)
      else Finite (- ((- int n) div d)))"

definition js_truthy :: "string option \<Rightarrow> bool" where
  "js_truthy v = (case v of None \<Rightarrow> False | Some s \<Rightarrow> s \<noteq> [])"

subsection \<open>\<^verbatim>\<open>JSON.stringify\<close> of a string\<close>

definition hex_digit :: "nat \<Rightarrow> char" where
  "hex_digit n =
     (if n < 10 then digit_char n else char_of (of_char CHR ''a'' + (n - 10)))"

text \<open>
  \<^verbatim>\<open>QuoteJSONString\<close>: the quotation mark and the backslash are escaped with a
  backslash, the control characters with their short form or \<^verbatim>\<open>\u00XX\<close>, every other
  code unit stands for itself.
\<close>

definition json_escape_char :: "char \<Rightarrow> string" where
  "json_escape_char c =
     (if c = CHR 0x22 then [CHR 0x5C, CHR 0x22]
      else if c = CHR 0x5C then [CHR 0x5C, CHR 0x5C]
      else if c = CHR 0x08 then [CHR 0x5C, CHR ''b'']
      else if c = CHR 0x0C then [CHR 0x5C, CHR ''f'']
      else if c = CHR 0x0A then [CHR 0x5C, CHR ''n'']
      else if c = CHR 0x0D then [CHR 0x5C, CHR ''r'']
      else if c = CHR 0x09 then [CHR 0x5C, CHR ''t'']
      else if (of_char c :: nat) < 32 then
        [CHR 0x5C, CHR ''u'', CHR ''0'', CHR ''0'',
         hex_digit (of_char c div 16), hex_digit (of_char c mod 16)]
      else [c])"

definition json_escape :: "string \<Rightarrow> string" where
  "json_escape s = concat (map json_escape_char s)"

definition quoteJSONString :: "string \<Rightarrow> string" where
  "quoteJSONString s = CHR 0x22 # json_escape s @ [CHR 0x22]"

section \<open>Data model\<close>

text \<open>
  Modelled from the spec: the entity \<^verbatim>\<open>ProductEntity\<close> is declared outside the files at
  hand. Section 3 of the specification gives it an identifier, a name, a category, a
  price, a soft-delete marker and a nullable external-source identifier. The identifier
  is generated by the store and is opaque to the service; it is a counter value here.
  The creation and update timestamps are wall-clock values and are left out.
\<close>

record ProductEntity =
  productId :: nat
  name :: string
  category :: string
  price :: int
  deletedAt :: "nat option"
  contentfulId :: "string option"

text \<open>
  \<^verbatim>\<open>PaginationDto\<close>: both fields may be \<^verbatim>\<open>undefined\<close>; the destructuring defaults
  them to 1 and 5.
\<close>

record PaginationDto =
  dto_page :: "int option"
  dto_limit :: "int option"

text \<open>
  \<^verbatim>\<open>FilterProductDto\<close> is a JavaScript object with the optional properties
  \<^verbatim>\<open>name\<close>, \<^verbatim>\<open>category\<close>, \<^verbatim>\<open>minPrice\<close> and \<^verbatim>\<open>maxPrice\<close>.
  \<^verbatim>\<open>JSON.stringify\<close> walks the properties in the order in which they were set, so the
  object is the list of its defined properties in that order. An object holds a property
  once: \<open>wf_filter\<close>.
\<close>

datatype filter_field =
  FName string | FCategory string | FMinPrice int | FMaxPrice int

type_synonym FilterProductDto = "filter_field list"

fun field_key :: "filter_field \<Rightarrow> string" where
  "field_key (FName _) = ''name''"
| "field_key (FCategory _) = ''category''"
| "field_key (FMinPrice _) = ''minPrice''"
| "field_key (FMaxPrice _) = ''maxPrice''"

definition wf_filter :: "FilterProductDto \<Rightarrow> bool" where
  "wf_filter f = distinct (map field_key f)"

fun filter_name :: "FilterProductDto \<Rightarrow> string option" where
  "filter_name [] = None"
| "filter_name (FName s # _) = Some s"
| "filter_name (_ # fs) = filter_name fs"

fun filter_category :: "FilterProductDto \<Rightarrow> string option" where
  "filter_category [] = None"
| "filter_category (FCategory s # _) = Some s"
| "filter_category (_ # fs) = filter_category fs"

fun filter_minPrice :: "FilterProductDto \<Rightarrow> int option" where
  "filter_minPrice [] = None"
| "filter_minPrice (FMinPrice n # _) = Some n"
| "filter_minPrice (_ # fs) = filter_minPrice fs"

fun filter_maxPrice :: "FilterProductDto \<Rightarrow> int option" where
  "filter_maxPrice [] = None"
| "filter_maxPrice (FMaxPrice n # _) = Some n"
| "filter_maxPrice (_ # fs) = filter_maxPrice fs"

text \<open>Two filters are logically identical when they hold the same properties.\<close>

definition same_filter :: "FilterProductDto \<Rightarrow> FilterProductDto \<Rightarrow> bool" where
  "same_filter f g =
     (filter_name f = filter_name g \<and> filter_category f = filter_category g
      \<and> filter_minPrice f = filter_minPrice g \<and> filter_maxPrice f = filter_maxPrice g)"

record PaginatedResult =
  data :: "ProductEntity list"
  total :: nat
  page :: int
  limit :: int
  totalPages :: js_number

section \<open>The cache key\<close>

fun json_field :: "filter_field \<Rightarrow> string" where
  "json_field (FName s) = quoteJSONString ''name'' @ '':'' @ quoteJSONString s"
| "json_field (FCategory s) = quoteJSONString ''category'' @ '':'' @ quoteJSONString s"
| "json_field (FMinPrice n) = quoteJSONString ''minPrice'' @ '':'' @ number_toString n"
| "json_field (FMaxPrice n) = quoteJSONString ''maxPrice'' @ '':'' @ number_toString n"

fun json_members :: "filter_field list \<Rightarrow> string" where
  "json_members [] = []"
| "json_members [x] = json_field x"
| "json_members (x # y # ys) = json_field x @ '','' @ json_members (y # ys)"

definition JSON_stringify :: "FilterProductDto \<Rightarrow> string" where
  "JSON_stringify filterDto = ''{'' @ json_members filterDto @ ''}''"

text \<open>\<^verbatim>\<open>`products_${page}_${limit}_${JSON.stringify(filterDto)}`\<close>\<close>

definition cacheKey :: "int \<Rightarrow> int \<Rightarrow> FilterProductDto \<Rightarrow> string" where
  "cacheKey pageNo pageSize filterDto =
     ''products_'' @ number_toString pageNo @ ''_'' @ number_toString pageSize @ ''_''
       @ JSON_stringify filterDto"

section \<open>Collaborators of the product service\<close>

text \<open>
  Exceptions are values. A collaborator (the repository, the cache store, the adapter,
  the HTTP client) is outside the service; where it can throw, the model says when.
\<close>

datatype error =
  RepositoryError | CacheStoreError | TypeError | AdapterError | HttpError

datatype log_entry = LogLine string | WarnLine string | ErrorLine string

subsection \<open>The repository\<close>

text \<open>
  Modelled from the spec: what \<^verbatim>\<open>ContentfulAdapter.toProductEntity\<close> yields for one
  external record is the stable external identifier and the mutable fields of a product
  (section 4.3). The adapter itself is a parameter of the sync job.
\<close>

record product_fields =
  f_contentfulId :: string
  f_name :: string
  f_category :: string
  f_price :: int

text \<open>
  The table is the list of its rows in the store's stable order, with the counter the
  next identifier comes from.
\<close>

record repository =
  rows :: "ProductEntity list"
  next_id :: nat

text \<open>
  A store-level error (connectivity, constraint violation) makes a repository call
  throw. Which calls throw is a parameter of each service operation: a predicate on
  \<open>repo_op\<close>.
\<close>

datatype repo_op =
  OpGetManyAndCount
| OpSoftDelete nat
| OpFindOne string
| OpUpdate nat product_fields
| OpSave product_fields

text \<open>The conditions that \<^verbatim>\<open>where\<close> and \<^verbatim>\<open>andWhere\<close> add to the query builder.\<close>

datatype condition =
  DeletedAtIsNull
| NameILike string
| CategoryEq string
| PriceGe int
| PriceLe int

record query =
  conditions :: "condition list"
  q_skip :: int
  q_take :: int

text \<open>
  The database evaluates a condition on a row. \<^verbatim>\<open>ILIKE\<close> is the database's operator:
  the parameter \<open>ilike\<close> takes the column's text and the pattern.
\<close>

fun holds :: "(string \<Rightarrow> string \<Rightarrow> bool) \<Rightarrow> condition \<Rightarrow> ProductEntity \<Rightarrow> bool" where
  "holds ilike DeletedAtIsNull r = (deletedAt r = None)"
| "holds ilike (NameILike pat) r = ilike (name r) pat"
| "holds ilike (CategoryEq c) r = (category r = c)"
| "holds ilike (PriceGe n) r = (n \<le> price r)"
| "holds ilike (PriceLe n) r = (price r \<le> n)"

definition matching ::
  "(string \<Rightarrow> string \<Rightarrow> bool) \<Rightarrow> condition list \<Rightarrow> ProductEntity list \<Rightarrow> ProductEntity list" where
  "matching ilike cs rs = filter (\<lambda>r. list_all (\<lambda>c. holds ilike c r) cs) rs"

text \<open>
  Modelled from the spec: \<^verbatim>\<open>getManyAndCount\<close> belongs to the ORM. Section 4.1 has the
  matches in a stable order, windowed by \<open>(page-1)*limit .. page*limit\<close>, with the count
  of the matches before the window. What the store does with a negative offset or size is
  not part of the service; \<^const>\<open>nat\<close> reads them as 0.
\<close>

definition getManyAndCount ::
  "(string \<Rightarrow> string \<Rightarrow> bool) \<Rightarrow> repository \<Rightarrow> query \<Rightarrow> ProductEntity list \<times> nat" where
  "getManyAndCount ilike repo q =
     (let ms = matching ilike (conditions q) (rows repo)
      in (take (nat (q_take q)) (drop (nat (q_skip q)) ms), length ms))"

text \<open>\<^verbatim>\<open>productRepository.softDelete(id)\<close> sets the marker of the rows with that identifier.\<close>

definition repo_softDelete :: "nat \<Rightarrow> nat \<Rightarrow> repository \<Rightarrow> repository" where
  "repo_softDelete ident now repo =
     repo\<lparr>rows := map (\<lambda>r. if productId r = ident then r\<lparr>deletedAt := Some now\<rparr> else r)
                     (rows repo)\<rparr>"

text \<open>
  \<^verbatim>\<open>findOne({ where: { contentfulId }, withDeleted: true })\<close>: the first row with that
  external identifier, soft-deleted or not.
\<close>

definition repo_findOne :: "string \<Rightarrow> repository \<Rightarrow> ProductEntity option" where
  "repo_findOne cid repo = find (\<lambda>r. contentfulId r = Some cid) (rows repo)"

definition set_fields :: "product_fields \<Rightarrow> ProductEntity \<Rightarrow> ProductEntity" where
  "set_fields pf r =
     r\<lparr>name := f_name pf, category := f_category pf, price := f_price pf,
       contentfulId := Some (f_contentfulId pf)\<rparr>"

text \<open>\<^verbatim>\<open>update(id, productEntity)\<close> overwrites the mapped fields of the rows with that identifier.\<close>

definition repo_update :: "nat \<Rightarrow> product_fields \<Rightarrow> repository \<Rightarrow> repository" where
  "repo_update ident pf repo =
     repo\<lparr>rows := map (\<lambda>r. if productId r = ident then set_fields pf r else r) (rows repo)\<rparr>"

text \<open>\<^verbatim>\<open>save(productEntity)\<close> of an entity without identifier inserts a row under a new one.\<close>

definition repo_save :: "product_fields \<Rightarrow> repository \<Rightarrow> repository" where
  "repo_save pf repo =
     \<lparr>rows = rows repo @
        [\<lparr>productId = next_id repo, name = f_name pf, category = f_category pf,
          price = f_price pf, deletedAt = None, contentfulId = Some (f_contentfulId pf)\<rparr>],
      next_id = Suc (next_id repo)\<rparr>"

text \<open>The primary key: identifiers are unique and come from the counter.\<close>

definition wf_repository :: "repository \<Rightarrow> bool" where
  "wf_repository repo =
     (distinct (map productId (rows repo))
      \<and> list_all (\<lambda>r. productId r < next_id repo) (rows repo))"

subsection \<open>The cache manager\<close>

text \<open>
  \<^verbatim>\<open>(this.cacheManager as any).store\<close> may be missing; when it is there, its
  \<^verbatim>\<open>keys\<close> may be no function (the call throws a \<^verbatim>\<open>TypeError\<close>), may reject, may
  resolve to \<^verbatim>\<open>null\<close>, or may resolve to the live keys that match the pattern.
  \<^verbatim>\<open>del\<close> may reject for some keys. \<^verbatim>\<open>get\<close> and \<^verbatim>\<open>set\<close> are taken to succeed. The
  expiry of an entry after its hour is the step \<open>expire\<close> below.
\<close>

datatype cache_store =
  NoStore | KeysNotAFunction | KeysReject | KeysNull | KeysMatching

record cache_manager =
  store :: cache_store
  entries :: "(string \<times> PaginatedResult) list"
  del_rejects :: "string \<Rightarrow> bool"

definition cache_get :: "cache_manager \<Rightarrow> string \<Rightarrow> PaginatedResult option" where
  "cache_get c k = map_of (entries c) k"

definition cache_set :: "cache_manager \<Rightarrow> string \<Rightarrow> PaginatedResult \<Rightarrow> cache_manager" where
  "cache_set c k v = c\<lparr>entries := (k, v) # filter (\<lambda>e. fst e \<noteq> k) (entries c)\<rparr>"

definition cache_del :: "cache_manager \<Rightarrow> string \<Rightarrow> cache_manager" where
  "cache_del c k = c\<lparr>entries := filter (\<lambda>e. fst e \<noteq> k) (entries c)\<rparr>"

text \<open>\<^verbatim>\<open>store.keys('products_*')\<close> on a store that enumerates.\<close>

definition store_keys :: "cache_manager \<Rightarrow> string list" where
  "store_keys c = filter (prefix ''products_'') (map fst (entries c))"

text \<open>
  \<^verbatim>\<open>Promise.all(keys.map(key => this.cacheManager.del(key)))\<close>: \<^verbatim>\<open>map\<close> starts every
  deletion; the promise rejects when one of them does. The result is the cache after
  the deletions that went through, and whether one rejected.
\<close>

fun del_all :: "cache_manager \<Rightarrow> string list \<Rightarrow> cache_manager \<times> bool" where
  "del_all c [] = (c, False)"
| "del_all c (k # ks) =
     (if del_rejects c k then (fst (del_all c ks), True)
      else del_all (cache_del c k) ks)"

section \<open>The product service\<close>

record service_state =
  productRepository :: repository
  cacheManager :: cache_manager
  logger :: "log_entry list"

definition log_line :: "log_entry \<Rightarrow> service_state \<Rightarrow> service_state" where
  "log_line e s = s\<lparr>logger := logger s @ [e]\<rparr>"

subsection \<open>\<^verbatim>\<open>findAll\<close>\<close>

text \<open>Lines 39 to 60: the query that the builder holds before it runs.\<close>

definition build_query :: "int \<Rightarrow> int \<Rightarrow> FilterProductDto \<Rightarrow> query" where
  "build_query pageNo pageSize filterDto =
     \<lparr>conditions =
        [DeletedAtIsNull]
        @ (if js_truthy (filter_name filterDto)
           then [NameILike (''%'' @ the (filter_name filterDto) @ ''%'')] else [])
        @ (if js_truthy (filter_category filterDto)
           then [CategoryEq (the (filter_category filterDto))] else [])
        @ (case filter_minPrice filterDto of None \<Rightarrow> [] | Some minPrice \<Rightarrow> [PriceGe minPrice])
        @ (case filter_maxPrice filterDto of None \<Rightarrow> [] | Some maxPrice \<Rightarrow> [PriceLe maxPrice]),
      q_skip = (pageNo - 1) * pageSize,
      q_take = pageSize\<rparr>"

text \<open>\<^verbatim>\<open>const { page = 1, limit = 5 } = paginationDto\<close>\<close>

definition page_of :: "PaginationDto \<Rightarrow> int" where
  "page_of paginationDto = (case dto_page paginationDto of None \<Rightarrow> 1 | Some p \<Rightarrow> p)"

definition limit_of :: "PaginationDto \<Rightarrow> int" where
  "limit_of paginationDto = (case dto_limit paginationDto of None \<Rightarrow> 5 | Some l \<Rightarrow> l)"

definition findAll ::
  "(string \<Rightarrow> string \<Rightarrow> bool) \<Rightarrow> (repo_op \<Rightarrow> bool) \<Rightarrow> service_state \<Rightarrow> PaginationDto \<Rightarrow>
     FilterProductDto \<Rightarrow> error + (PaginatedResult \<times> service_state)" where
  "findAll ilike fails s paginationDto filterDto =
     (let pageNo = page_of paginationDto;
          pageSize = limit_of paginationDto;
          key = cacheKey pageNo pageSize filterDto
      in case cache_get (cacheManager s) key of
           Some cachedData \<Rightarrow>
             Inr (cachedData,
                  log_line (LogLine (''Returning cached data for key: '' @ key)) s)
         | None \<Rightarrow>
             if fails OpGetManyAndCount then Inl RepositoryError
             else
               let (rs, n) = getManyAndCount ilike (productRepository s)
                               (build_query pageNo pageSize filterDto);
                   result = \<lparr>data = rs, total = n, page = pageNo, limit = pageSize,
                             totalPages = Math_ceil_div n pageSize\<rparr>
               in Inr (result,
                       s\<lparr>cacheManager := cache_set (cacheManager s) key result\<rparr>))"

subsection \<open>\<^verbatim>\<open>invalidateCache\<close>\<close>

text \<open>
  The \<^verbatim>\<open>try\<close> block: the state it leaves behind and the exception it ends with, if any.
\<close>

definition invalidateCache_try :: "service_state \<Rightarrow> service_state \<times> error option" where
  "invalidateCache_try s =
     (case store (cacheManager s) of
        NoStore \<Rightarrow> (s, None)
      | KeysNotAFunction \<Rightarrow> (s, Some TypeError)
      | KeysReject \<Rightarrow> (s, Some CacheStoreError)
      | KeysNull \<Rightarrow> (s, None)
      | KeysMatching \<Rightarrow>
          let keys = store_keys (cacheManager s) in
          if keys \<noteq> [] then
            (let (c, rejected) = del_all (cacheManager s) keys;
                 s' = s\<lparr>cacheManager := c\<rparr>
             in if rejected then (s', Some CacheStoreError)
                else (log_line (LogLine (''Invalidated '' @ decimal_digits (length keys)
                                          @ '' cache entries'')) s', None))
          else (s, None))"

definition invalidateCache :: "service_state \<Rightarrow> error + service_state" where
  "invalidateCache s =
     (case invalidateCache_try s of
        (s', None) \<Rightarrow> Inr s'
      | (s', Some e) \<Rightarrow> Inr (log_line (WarnLine ''Failed to invalidate cache'') s'))"

subsection \<open>\<^verbatim>\<open>softDelete\<close>\<close>

definition softDelete ::
  "(repo_op \<Rightarrow> bool) \<Rightarrow> nat \<Rightarrow> service_state \<Rightarrow> nat \<Rightarrow> error + service_state" where
  "softDelete fails now s ident =
     (if fails (OpSoftDelete ident) then Inl RepositoryError
      else invalidateCache
             (s\<lparr>productRepository := repo_softDelete ident now (productRepository s)\<rparr>))"

subsection \<open>\<^verbatim>\<open>fetchFromContentful\<close>\<close>

text \<open>The body of the \<^verbatim>\<open>for\<close> loop, lines 113 to 123, for one external record.\<close>

definition upsert ::
  "('i \<Rightarrow> error + product_fields) \<Rightarrow> (repo_op \<Rightarrow> bool) \<Rightarrow> repository \<Rightarrow> 'i \<Rightarrow>
     error + repository" where
  "upsert toProductEntity fails repo item =
     (case toProductEntity item of
        Inl e \<Rightarrow> Inl e
      | Inr productEntity \<Rightarrow>
          if fails (OpFindOne (f_contentfulId productEntity)) then Inl RepositoryError
          else
            (case repo_findOne (f_contentfulId productEntity) repo of
               Some existingProduct \<Rightarrow>
                 if fails (OpUpdate (productId existingProduct) productEntity)
                 then Inl RepositoryError
                 else Inr (repo_update (productId existingProduct) productEntity repo)
             | None \<Rightarrow>
                 if fails (OpSave productEntity) then Inl RepositoryError
                 else Inr (repo_save productEntity repo)))"

text \<open>
  The loop: an exception leaves it at once. The result is the repository as the loop
  left it and the exception, if any.
\<close>

fun sync_loop ::
  "('i \<Rightarrow> error + product_fields) \<Rightarrow> (repo_op \<Rightarrow> bool) \<Rightarrow> repository \<Rightarrow> 'i list \<Rightarrow>
     repository \<times> error option" where
  "sync_loop toProductEntity fails repo [] = (repo, None)"
| "sync_loop toProductEntity fails repo (item # items) =
     (case upsert toProductEntity fails repo item of
        Inl e \<Rightarrow> (repo, Some e)
      | Inr repo' \<Rightarrow> sync_loop toProductEntity fails repo' items)"

text \<open>
  The job: \<open>response\<close> is what the HTTP request resolves to, the items of the listing or
  an exception. The \<^verbatim>\<open>catch\<close> takes every exception of the \<^verbatim>\<open>try\<close> block.
\<close>

definition fetchFromContentful ::
  "('i \<Rightarrow> error + product_fields) \<Rightarrow> (repo_op \<Rightarrow> bool) \<Rightarrow> error + 'i list \<Rightarrow>
     service_state \<Rightarrow> error + service_state" where
  "fetchFromContentful toProductEntity fails response s =
     (let s0 = log_line (LogLine ''Fetching products from Contentful...'') s
      in case response of
           Inl e \<Rightarrow> Inr (log_line (ErrorLine ''Error fetching from Contentful'') s0)
         | Inr items \<Rightarrow>
             (case sync_loop toProductEntity fails (productRepository s0) items of
                (repo, Some e) \<Rightarrow>
                  Inr (log_line (ErrorLine ''Error fetching from Contentful'')
                         (s0\<lparr>productRepository := repo\<rparr>))
              | (repo, None) \<Rightarrow>
                  (case invalidateCache
                          (log_line (LogLine (''Successfully fetched and updated ''
                                       @ decimal_digits (length items) @ '' products.''))
                             (s0\<lparr>productRepository := repo\<rparr>)) of
                     Inl e \<Rightarrow>
                       Inr (log_line (ErrorLine ''Error fetching from Contentful'')
                              (log_line (LogLine (''Successfully fetched and updated ''
                                       @ decimal_digits (length items) @ '' products.''))
                                 (s0\<lparr>productRepository := repo\<rparr>)))
                   | Inr s1 \<Rightarrow> Inr s1)))"

section \<open>The access gate\<close>

text \<open>
  \<^verbatim>\<open>AuthGuard.canActivate\<close> reads \<^verbatim>\<open>request.headers['authorization']\<close>, which is a
  string or \<^verbatim>\<open>undefined\<close>. A request is modelled by its header table; the exception the
  guard throws is a value that carries the message of the source.
\<close>

datatype http_exception = UnauthorizedException string

record request =
  headers :: "string \<rightharpoonup> string"

text \<open>
  \<^verbatim>\<open>!authHeader\<close> holds for \<^verbatim>\<open>undefined\<close> and for the empty string;
  \<^verbatim>\<open>authHeader.startsWith('Bearer ')\<close> is \<^const>\<open>prefix\<close>.
\<close>

definition canActivate :: "request \<Rightarrow> http_exception + bool" where
  "canActivate req =
     (case headers req ''authorization'' of
        None \<Rightarrow> Inl (UnauthorizedException ''Authorization header is missing'')
      | Some authHeader \<Rightarrow>
          if authHeader = [] then
            Inl (UnauthorizedException ''Authorization header is missing'')
          else if \<not> prefix ''Bearer '' authHeader then
            Inl (UnauthorizedException ''Invalid authorization header format'')
          else Inr True)"

definition with_authorization :: "string \<Rightarrow> request" where
  "with_authorization v = \<lparr>headers = [''authorization'' \<mapsto> v]\<rparr>"

definition without_authorization :: request where
  "without_authorization = \<lparr>headers = Map.empty\<rparr>"

section \<open>Reading the claims\<close>

text \<open>
  The predicate of section 4.1 of the specification: a product matches a filter when it
  is not soft-deleted and meets every predicate the filter supplies. A name or category
  that is the empty string supplies none.
\<close>

definition matches_filter ::
  "(string \<Rightarrow> string \<Rightarrow> bool) \<Rightarrow> FilterProductDto \<Rightarrow> ProductEntity \<Rightarrow> bool" where
  "matches_filter ilike f r =
     (deletedAt r = None
      \<and> (case filter_name f of None \<Rightarrow> True
          | Some n \<Rightarrow> n = [] \<or> ilike (name r) (''%'' @ n @ ''%''))
      \<and> (case filter_category f of None \<Rightarrow> True | Some c \<Rightarrow> c = [] \<or> category r = c)
      \<and> (case filter_minPrice f of None \<Rightarrow> True | Some lo \<Rightarrow> lo \<le> price r)
      \<and> (case filter_maxPrice f of None \<Rightarrow> True | Some hi \<Rightarrow> price r \<le> hi))"

text \<open>The filter without the property \<open>k\<close>.\<close>

definition without_key :: "string \<Rightarrow> FilterProductDto \<Rightarrow> FilterProductDto" where
  "without_key k f = filter (\<lambda>x. field_key x \<noteq> k) f"

text \<open>What a call of \<^const>\<open>findAll\<close> hands back to its caller.\<close>

definition returned :: "error + (PaginatedResult \<times> service_state) \<Rightarrow> PaginatedResult option" where
  "returned x = (case x of Inl e \<Rightarrow> None | Inr (r, s') \<Rightarrow> Some r)"

subsection \<open>Concrete states\<close>

text \<open>
  The seeded set of section 8: twelve live products of category shoes with prices from
  10 to 21, and three soft-deleted ones.
\<close>

definition seeded_rows :: "ProductEntity list" where
  "seeded_rows =
     map (\<lambda>i. \<lparr>productId = i, name = ''shoe'', category = ''shoes'', price = 10 + int i,
                deletedAt = None, contentfulId = None\<rparr>) [0..<12]
     @ map (\<lambda>i. \<lparr>productId = i, name = ''shoe'', category = ''shoes'', price = 20,
                deletedAt = Some 1, contentfulId = None\<rparr>) [12..<15]"

definition empty_cache :: "cache_store \<Rightarrow> cache_manager" where
  "empty_cache st = \<lparr>store = st, entries = [], del_rejects = (\<lambda>k. False)\<rparr>"

definition seeded_state :: service_state where
  "seeded_state =
     \<lparr>productRepository = \<lparr>rows = seeded_rows, next_id = 15\<rparr>,
      cacheManager = empty_cache KeysMatching, logger = []\<rparr>"

definition no_faults :: "repo_op \<Rightarrow> bool" where
  "no_faults op = False"

text \<open>A stand-in for the database's operator where a concrete one is needed.\<close>

definition any_ilike :: "string \<Rightarrow> string \<Rightarrow> bool" where
  "any_ilike txt pat = True"

text \<open>The page that the query path computes.\<close>

definition computed_page ::
  "(string \<Rightarrow> string \<Rightarrow> bool) \<Rightarrow> repository \<Rightarrow> PaginationDto \<Rightarrow> FilterProductDto \<Rightarrow> PaginatedResult" where
  "computed_page ilike repo pg f =
     \<lparr>data = take (nat (limit_of pg)) (drop (nat ((page_of pg - 1) * limit_of pg))
                (filter (matches_filter ilike f) (rows repo))),
      total = length (filter (matches_filter ilike f) (rows repo)),
      page = page_of pg, limit = limit_of pg,
      totalPages = Math_ceil_div (length (filter (matches_filter ilike f) (rows repo)))
                     (limit_of pg)\<rparr>"

subsection \<open>States the service can reach\<close>

text \<open>Every cached page holds only products without the soft-delete marker.\<close>

definition pages_live :: "cache_manager \<Rightarrow> bool" where
  "pages_live c = list_all (\<lambda>e. list_all (\<lambda>p. deletedAt p = None) (data (snd e))) (entries c)"

text \<open>
  The service starts with an empty cache. From there on the cache changes by the three
  operations of the service and by the expiry of entries; the repository may also change
  behind the service's back. The external records of a sync are taken as what the
  adapter is given, the adapter being any function on them.
\<close>

inductive reachable :: "service_state \<Rightarrow> bool" where
  start: "entries (cacheManager s) = [] \<Longrightarrow> reachable s"
| list: "reachable s \<Longrightarrow> findAll ilike fails s pg f = Inr (r, s') \<Longrightarrow> reachable s'"
| delete: "reachable s \<Longrightarrow> softDelete fails now s ident = Inr s' \<Longrightarrow> reachable s'"
| sync: "reachable s \<Longrightarrow>
     fetchFromContentful (toProductEntity :: error + product_fields \<Rightarrow> error + product_fields)
       fails response s = Inr s' \<Longrightarrow> reachable s'"
| expire: "reachable s \<Longrightarrow>
     reachable (s\<lparr>cacheManager := (cacheManager s)\<lparr>entries := filter keep (entries (cacheManager s))\<rparr>\<rparr>)"
| store_change: "reachable s \<Longrightarrow> reachable (s\<lparr>productRepository := repo\<rparr>)"

subsection \<open>The fail-soft loop of the specification\<close>

text \<open>
  Section 4.3 of the specification words the failure policy of the sync loop so: a
  failure on one record is reported and the loop continues to the next record. That loop,
  to compare the loop of the source with:
\<close>

fun sync_loop_failsoft ::
  "('i \<Rightarrow> error + product_fields) \<Rightarrow> (repo_op \<Rightarrow> bool) \<Rightarrow> repository \<Rightarrow> 'i list \<Rightarrow>
     repository" where
  "sync_loop_failsoft toProductEntity fails repo [] = repo"
| "sync_loop_failsoft toProductEntity fails repo (item # items) =
     (case upsert toProductEntity fails repo item of
        Inl e \<Rightarrow> sync_loop_failsoft toProductEntity fails repo items
      | Inr repo' \<Rightarrow> sync_loop_failsoft toProductEntity fails repo' items)"

subsection \<open>More concrete states\<close>

text \<open>
  One live product with the external identifier X1; the state before and after the
  default list request has been served and cached, for any behaviour of the cache
  store.
\<close>

definition boot :: ProductEntity where
  "boot = \<lparr>productId = 0, name = ''boot'', category = ''shoes'', price = 30,
           deletedAt = None, contentfulId = Some ''X1''\<rparr>"

definition boot_page :: PaginatedResult where
  "boot_page = \<lparr>data = [boot], total = 1, page = 1, limit = 5, totalPages = Finite 1\<rparr>"

definition unlisted_state :: "cache_store \<Rightarrow> (string \<Rightarrow> bool) \<Rightarrow> service_state" where
  "unlisted_state st rej =
     \<lparr>productRepository = \<lparr>rows = [boot], next_id = 1\<rparr>,
      cacheManager = \<lparr>store = st, entries = [], del_rejects = rej\<rparr>,
      logger = []\<rparr>"

definition listed_state :: "cache_store \<Rightarrow> (string \<Rightarrow> bool) \<Rightarrow> service_state" where
  "listed_state st rej =
     \<lparr>productRepository = \<lparr>rows = [boot], next_id = 1\<rparr>,
      cacheManager = \<lparr>store = st, entries = [(''products_1_5_{}'', boot_page)],
                      del_rejects = rej\<rparr>,
      logger = []\<rparr>"

definition every_key :: "string \<Rightarrow> bool" where
  "every_key k = True"

definition no_key :: "string \<Rightarrow> bool" where
  "no_key k = False"

definition no_pagination :: PaginationDto where
  "no_pagination = \<lparr>dto_page = None, dto_limit = None\<rparr>"

text \<open>
  The state that \<^verbatim>\<open>softDelete(0)\<close> leaves when the cache manager has no \<^verbatim>\<open>store\<close>
  property and the default list page is cached: the product is soft-deleted in the
  repository and the page computed before is still in the cache.
\<close>

definition stale_state :: service_state where
  "stale_state =
     \<lparr>productRepository = \<lparr>rows = [boot\<lparr>deletedAt := Some 7\<rparr>], next_id = 1\<rparr>,
      cacheManager = \<lparr>store = NoStore, entries = [(''products_1_5_{}'', boot_page)],
                      del_rejects = no_key\<rparr>,
      logger = []\<rparr>"

text \<open>
  External records for the sync job, as the adapter's outcome for each: a mapped record,
  or the exception the mapping throws.
\<close>

definition already_mapped :: "error + product_fields \<Rightarrow> error + product_fields" where
  "already_mapped item = item"

definition boot_repriced :: product_fields where
  "boot_repriced = \<lparr>f_contentfulId = ''X1'', f_name = ''boot'', f_category = ''shoes'',
                     f_price = 45\<rparr>"

definition fresh_state :: service_state where
  "fresh_state =
     \<lparr>productRepository = \<lparr>rows = [], next_id = 0\<rparr>,
      cacheManager = \<lparr>store = KeysMatching, entries = [], del_rejects = no_key\<rparr>,
      logger = []\<rparr>"

definition falsy_filter :: FilterProductDto where
  "falsy_filter = [FName [], FCategory [], FMinPrice 0, FMaxPrice 0]"

subsection \<open>Notions for the cache key\<close>

text \<open>
  The number that a string of decimal digits stands for; the characters that are decimal
  digits, that \<^verbatim>\<open>JSON.stringify\<close> escapes, and that end a member of a JSON object.
\<close>

definition digits_value :: "string \<Rightarrow> nat" where
  "digits_value ds = foldl (\<lambda>a c. 10 * a + (of_char c - 48)) 0 ds"

definition is_digit :: "char \<Rightarrow> bool" where
  "is_digit c = (48 \<le> (of_char c :: nat) \<and> (of_char c :: nat) < 58)"

definition needs_escape :: "char \<Rightarrow> bool" where
  "needs_escape c = (c = CHR 0x22 \<or> c = CHR 0x5C \<or> (of_char c :: nat) < 32)"

definition ends_member :: "char \<Rightarrow> bool" where
  "ends_member c = (c = CHR '','' \<or> c = CHR ''}'')"

subsection \<open>Notions for the sync loop\<close>









section \<open>Properties of the access gate\<close>

text \<open>
  C7: the guard throws an unauthorized error when the authorization header is absent,
  throws an unauthorized error when the header is present and does not start with
  \<^verbatim>\<open>Bearer\<close> followed by a space, and returns true otherwise; the header
  \<^verbatim>\<open>Token abc\<close> is rejected and \<^verbatim>\<open>Bearer abc\<close> is accepted.
\<close>

theorem canActivate_gate:
  "(headers req ''authorization'' = None \<longrightarrow>
      (\<exists>m. canActivate req = Inl (UnauthorizedException m)))
   \<and> (\<forall>h. headers req ''authorization'' = Some h \<and> \<not> prefix ''Bearer '' h \<longrightarrow>
      (\<exists>m. canActivate req = Inl (UnauthorizedException m)))
   \<and> (\<forall>h. headers req ''authorization'' = Some h \<and> prefix ''Bearer '' h \<longrightarrow>
      canActivate req = Inr True)
   \<and> (\<exists>m. canActivate (with_authorization ''Token abc'') = Inl (UnauthorizedException m))
   \<and> canActivate (with_authorization ''Bearer abc'') = Inr True
   \<and> (\<exists>m. canActivate without_authorization = Inl (UnauthorizedException m))"
  by (auto simp: canActivate_def with_authorization_def without_authorization_def
      split: option.splits)

theorem canActivate_gate_witness:
  "headers (with_authorization ''Bearer abc'') ''authorization'' = Some ''Bearer abc''
   \<and> prefix ''Bearer '' ''Bearer abc''
   \<and> canActivate (with_authorization ''Bearer abc'') = Inr True
   \<and> headers (with_authorization ''Token abc'') ''authorization'' = Some ''Token abc''
   \<and> \<not> prefix ''Bearer '' ''Token abc''
   \<and> (\<exists>m. canActivate (with_authorization ''Token abc'') = Inl (UnauthorizedException m))
   \<and> headers without_authorization ''authorization'' = None
   \<and> (\<exists>m. canActivate without_authorization = Inl (UnauthorizedException m))"
  using canActivate_gate [of "with_authorization ''Bearer abc''"]
    canActivate_gate [of "with_authorization ''Token abc''"]
    canActivate_gate [of without_authorization]
  by (simp add: with_authorization_def without_authorization_def)

section \<open>Properties of the cache key\<close>

lemma of_char_digit_char: "d < 10 \<Longrightarrow> (of_char (digit_char d) :: nat) = 48 + d"
  by (simp add: digit_char_def)

lemma digits_value_decimal_digits: "digits_value (decimal_digits n) = n"
proof (induction n rule: decimal_digits.induct)
  case (1 n)
  show ?case
  proof (cases "10 \<le> n")
    case True
    then have "digits_value (decimal_digits n)
        = 10 * digits_value (decimal_digits (n div 10)) + n mod 10"
      by (subst decimal_digits.simps) (simp add: digits_value_def of_char_digit_char)
    with True "1.IH" show ?thesis by simp
  next
    case False
    then show ?thesis
      by (subst decimal_digits.simps) (simp add: digits_value_def of_char_digit_char)
  qed
qed

lemma decimal_digits_chars:
  "c \<in> set (decimal_digits n) \<Longrightarrow> \<exists>d<10. c = digit_char d"
proof (induction n rule: decimal_digits.induct)
  case (1 n)
  show ?case
  proof (cases "10 \<le> n")
    case True
    with "1.prems" have "c \<in> set (decimal_digits (n div 10)) \<or> c = digit_char (n mod 10)"
      by (subst (asm) decimal_digits.simps) auto
    with True "1.IH" show ?thesis
      by (metis mod_less_divisor zero_less_numeral)
  next
    case False
    with "1.prems" have "c = digit_char n"
      by (subst (asm) decimal_digits.simps) simp
    with False show ?thesis
      by (intro exI [of _ n]) simp
  qed
qed

lemma decimal_digits_is_digit: "c \<in> set (decimal_digits n) \<Longrightarrow> is_digit c"
  by (auto dest!: decimal_digits_chars simp: is_digit_def of_char_digit_char)

lemma number_toString_chars:
  "c \<in> set (number_toString i) \<Longrightarrow> is_digit c \<or> c = CHR ''-''"
  by (auto simp: number_toString_def dest: decimal_digits_is_digit split: if_splits)

lemma number_toString_inj: "number_toString i = number_toString j \<Longrightarrow> i = j"
proof -
  assume eq: "number_toString i = number_toString j"
  have neg: "\<not> is_digit CHR ''-''" by (simp add: is_digit_def)
  have nohyphen: "decimal_digits n \<noteq> CHR ''-'' # ds" for n ds
    using decimal_digits_is_digit [of "CHR ''-''" n] neg
    by (metis list.set_intros(1))
  show ?thesis
  proof (cases "0 \<le> i"; cases "0 \<le> j")
    assume "0 \<le> i" "0 \<le> j"
    with eq have "decimal_digits (nat i) = decimal_digits (nat j)"
      by (simp add: number_toString_def)
    then have "digits_value (decimal_digits (nat i)) = digits_value (decimal_digits (nat j))"
      by simp
    with \<open>0 \<le> i\<close> \<open>0 \<le> j\<close> show ?thesis
      by (simp add: digits_value_decimal_digits)
  next
    assume "0 \<le> i" "\<not> 0 \<le> j"
    with eq nohyphen show ?thesis by (simp add: number_toString_def)
  next
    assume "\<not> 0 \<le> i" "0 \<le> j"
    with eq have "decimal_digits (nat j) = CHR ''-'' # decimal_digits (nat (- i))"
      by (simp add: number_toString_def)
    with nohyphen show ?thesis by blast
  next
    assume a: "\<not> 0 \<le> i" "\<not> 0 \<le> j"
    with eq have "decimal_digits (nat (- i)) = decimal_digits (nat (- j))"
      by (simp add: number_toString_def)
    then have "digits_value (decimal_digits (nat (- i))) = digits_value (decimal_digits (nat (- j)))"
      by simp
    with a show ?thesis
      by (simp add: digits_value_decimal_digits)
  qed
qed

lemma separator_split:
  assumes "xs @ d # r = ys @ d' # r'"
    and "\<forall>c\<in>set xs. \<not> S c" and "\<forall>c\<in>set ys. \<not> S c" and "S d" and "S d'"
  shows "xs = ys \<and> d = d' \<and> r = r'"
  using assms
proof (induction xs arbitrary: ys)
  case Nil
  then show ?case by (cases ys) auto
next
  case (Cons x xs)
  then show ?case by (cases ys) auto
qed

lemma of_char_hex_digit:
  "n < 16 \<Longrightarrow> (of_char (hex_digit n) :: nat) = (if n < 10 then 48 + n else 87 + n)"
  by (simp add: hex_digit_def digit_char_def)

lemma hex_digit_inj: "m < 16 \<Longrightarrow> n < 16 \<Longrightarrow> hex_digit m = hex_digit n \<Longrightarrow> m = n"
proof -
  assume a: "m < 16" "n < 16" and "hex_digit m = hex_digit n"
  then have "(of_char (hex_digit m) :: nat) = of_char (hex_digit n)"
    by simp
  with a show ?thesis
    by (simp add: of_char_hex_digit split: if_splits)
qed

lemma json_escape_char_plain: "\<not> needs_escape c \<Longrightarrow> json_escape_char c = [c]"
  by (auto simp: needs_escape_def json_escape_char_def)

lemma json_escape_char_escaped:
  "needs_escape c \<Longrightarrow> \<exists>t. json_escape_char c = CHR 0x5C # t"
  by (auto simp: needs_escape_def json_escape_char_def)

lemma control_char_eq:
  assumes "(of_char c :: nat) < 32" "(of_char c' :: nat) < 32"
    and "hex_digit (of_char c div 16) = hex_digit (of_char c' div 16)"
    and "hex_digit (of_char c mod 16) = hex_digit (of_char c' mod 16)"
  shows "c = c'"
proof -
  have "(of_char c :: nat) div 16 = of_char c' div 16"
    using assms(1,2) by (intro hex_digit_inj [OF _ _ assms(3)]) auto
  moreover have "(of_char c :: nat) mod 16 = of_char c' mod 16"
    by (intro hex_digit_inj [OF _ _ assms(4)]) auto
  ultimately have "(of_char c :: nat) = of_char c'"
    by (metis div_mult_mod_eq)
  then show ?thesis by simp
qed

lemma json_escape_char_split_escaped:
  assumes "needs_escape c" "needs_escape c'"
    and "json_escape_char c @ r = json_escape_char c' @ r'"
  shows "c = c' \<and> r = r'"
  using assms
  apply (simp add: needs_escape_def json_escape_char_def split: if_splits)
  apply (auto dest: control_char_eq)
  done

lemma json_escape_char_split:
  assumes "json_escape_char c @ r = json_escape_char c' @ r'"
  shows "c = c' \<and> r = r'"
proof (cases "needs_escape c"; cases "needs_escape c'")
  assume "needs_escape c" "needs_escape c'"
  with assms show ?thesis by (rule json_escape_char_split_escaped [rotated 2])
next
  assume a: "needs_escape c" "\<not> needs_escape c'"
  then obtain t where "json_escape_char c = CHR 0x5C # t"
    using json_escape_char_escaped by blast
  with assms a have "c' = CHR 0x5C"
    by (simp add: json_escape_char_plain)
  with a show ?thesis by (simp add: needs_escape_def)
next
  assume a: "\<not> needs_escape c" "needs_escape c'"
  then obtain t where "json_escape_char c' = CHR 0x5C # t"
    using json_escape_char_escaped by blast
  with assms a have "c = CHR 0x5C"
    by (simp add: json_escape_char_plain)
  with a show ?thesis by (simp add: needs_escape_def)
next
  assume "\<not> needs_escape c" "\<not> needs_escape c'"
  with assms show ?thesis by (simp add: json_escape_char_plain)
qed

lemma json_escape_char_no_quote: "json_escape_char c \<noteq> CHR 0x22 # t"
proof (cases "needs_escape c")
  case True
  then show ?thesis using json_escape_char_escaped [of c] by auto
next
  case False
  then show ?thesis by (auto simp: json_escape_char_plain needs_escape_def)
qed

lemma json_escape_char_nonempty: "json_escape_char c \<noteq> []"
  by (cases "needs_escape c") (auto simp: json_escape_char_plain dest: json_escape_char_escaped)

lemma json_escape_Cons: "json_escape (c # s) = json_escape_char c @ json_escape s"
  by (simp add: json_escape_def)

lemma json_escape_Nil: "json_escape [] = []"
  by (simp add: json_escape_def)

lemma json_escape_starts:
  "json_escape (c # s) @ r \<noteq> CHR 0x22 # r'"
proof
  assume a: "json_escape (c # s) @ r = CHR 0x22 # r'"
  obtain x t where "json_escape_char c = x # t"
    using json_escape_char_nonempty [of c] by (cases "json_escape_char c") auto
  with a json_escape_char_no_quote [of c t] show False
    by (simp add: json_escape_Cons)
qed

lemma json_escape_split:
  "json_escape s @ CHR 0x22 # r = json_escape s' @ CHR 0x22 # r' \<Longrightarrow> s = s' \<and> r = r'"
proof (induction s arbitrary: s')
  case Nil
  show ?case
  proof (cases s')
    case Nil
    with Nil.prems show ?thesis by (simp add: json_escape_Nil)
  next
    case (Cons c' t')
    with Nil.prems have "json_escape (c' # t') @ CHR 0x22 # r' = CHR 0x22 # r"
      by (simp add: json_escape_Nil)
    with json_escape_starts show ?thesis by blast
  qed
next
  case (Cons c s)
  show ?case
  proof (cases s')
    case Nil
    with Cons.prems show ?thesis
      using json_escape_starts [of c s] by (auto simp: json_escape_Nil)
  next
    case (Cons c' t')
    with Cons.prems have
      "json_escape_char c @ (json_escape s @ CHR 0x22 # r)
        = json_escape_char c' @ (json_escape t' @ CHR 0x22 # r')"
      by (simp add: json_escape_Cons)
    then have "c = c'" and "json_escape s @ CHR 0x22 # r = json_escape t' @ CHR 0x22 # r'"
      using json_escape_char_split by blast+
    with Cons.IH Cons show ?thesis by blast
  qed
qed

lemma quoteJSONString_split:
  "quoteJSONString s @ r = quoteJSONString s' @ r' \<Longrightarrow> s = s' \<and> r = r'"
  using json_escape_split [of s r s' r'] by (simp add: quoteJSONString_def)

lemma quote_name: "quoteJSONString ''name'' = [CHR 0x22] @ ''name'' @ [CHR 0x22]"
  and quote_category: "quoteJSONString ''category'' = [CHR 0x22] @ ''category'' @ [CHR 0x22]"
  and quote_minPrice: "quoteJSONString ''minPrice'' = [CHR 0x22] @ ''minPrice'' @ [CHR 0x22]"
  and quote_maxPrice: "quoteJSONString ''maxPrice'' = [CHR 0x22] @ ''maxPrice'' @ [CHR 0x22]"
  by (simp_all add: quoteJSONString_def json_escape_def json_escape_char_def)

lemma number_toString_no_end: "c \<in> set (number_toString n) \<Longrightarrow> \<not> ends_member c"
  by (auto dest!: number_toString_chars simp: ends_member_def is_digit_def)

lemma number_toString_split:
  assumes "number_toString m @ d # r = number_toString n @ d' # r'"
    and "ends_member d" "ends_member d'"
  shows "m = n \<and> d = d' \<and> r = r'"
proof -
  from separator_split [OF assms(1), of ends_member] assms(2,3) number_toString_no_end
  have "number_toString m = number_toString n \<and> d = d' \<and> r = r'"
    by blast
  then show ?thesis by (auto dest: number_toString_inj)
qed

lemma json_field_split:
  assumes "json_field x @ d # r = json_field y @ d' # r'"
    and "ends_member d" "ends_member d'"
  shows "x = y \<and> d = d' \<and> r = r'"
proof (cases x; cases y)
  fix s t assume "x = FName s" "y = FName t"
  with assms(1) show ?thesis
    using quoteJSONString_split [of s "d # r" t "d' # r'"]
    by (simp add: quote_name)
next
  fix s t assume "x = FCategory s" "y = FCategory t"
  with assms(1) show ?thesis
    using quoteJSONString_split [of s "d # r" t "d' # r'"]
    by (simp add: quote_category)
next
  fix m n assume "x = FMinPrice m" "y = FMinPrice n"
  with assms show ?thesis
    using number_toString_split [of m d r n d' r']
    by (simp add: quote_minPrice)
next
  fix m n assume "x = FMaxPrice m" "y = FMaxPrice n"
  with assms show ?thesis
    using number_toString_split [of m d r n d' r']
    by (simp add: quote_maxPrice)
qed (use assms(1) in \<open>simp_all add: quote_name quote_category quote_minPrice quote_maxPrice\<close>)

lemma json_field_starts: "\<exists>t. json_field x = CHR 0x22 # t"
  by (cases x) (simp_all add: quoteJSONString_def)

lemma json_members_Cons:
  "json_members (x # xs) @ CHR ''}'' # r
     = json_field x @ (if xs = [] then CHR ''}'' # r
                       else CHR '','' # json_members xs @ CHR ''}'' # r)"
  by (cases xs) simp_all

lemma json_members_split:
  "json_members f @ CHR ''}'' # r = json_members g @ CHR ''}'' # r' \<Longrightarrow> f = g \<and> r = r'"
proof (induction f arbitrary: g)
  case Nil
  show ?case
  proof (cases g)
    case Nil
    with Nil.prems show ?thesis by simp
  next
    case (Cons y ys)
    obtain t where "json_field y = CHR 0x22 # t"
      using json_field_starts by blast
    with Cons Nil.prems show ?thesis
      by (simp add: json_members_Cons split: if_splits)
  qed
next
  case (Cons x xs)
  show ?case
  proof (cases g)
    case Nil
    obtain t where "json_field x = CHR 0x22 # t"
      using json_field_starts by blast
    with Nil Cons.prems show ?thesis
      by (simp add: json_members_Cons split: if_splits)
  next
    case g: (Cons y ys)
    let ?rx = "if xs = [] then CHR ''}'' # r else CHR '','' # json_members xs @ CHR ''}'' # r"
    let ?ry = "if ys = [] then CHR ''}'' # r' else CHR '','' # json_members ys @ CHR ''}'' # r'"
    from Cons.prems g have eq: "json_field x @ ?rx = json_field y @ ?ry"
      by (simp only: json_members_Cons)
    obtain d t where rx: "?rx = d # t" and dx: "ends_member d"
      by (cases "xs = []") (auto simp: ends_member_def)
    obtain d' t' where ry: "?ry = d' # t'" and dy: "ends_member d'"
      by (cases "ys = []") (auto simp: ends_member_def)
    from eq rx ry have "json_field x @ d # t = json_field y @ d' # t'"
      by simp
    from json_field_split [OF this dx dy] have xy: "x = y" and "d = d'" and "t = t'"
      by simp_all
    with rx ry have rest: "?rx = ?ry" by simp
    show ?thesis
    proof (cases "xs = []")
      case True
      with rest have "ys = []" and "r = r'"
        by (auto split: if_splits)
      with True xy g show ?thesis by simp
    next
      case False
      with rest have ys: "ys \<noteq> []"
        and "json_members xs @ CHR ''}'' # r = json_members ys @ CHR ''}'' # r'"
        by (auto split: if_splits)
      with Cons.IH have "xs = ys \<and> r = r'" by blast
      with xy g show ?thesis by simp
    qed
  qed
qed

lemma JSON_stringify_inj: "JSON_stringify f = JSON_stringify g \<Longrightarrow> f = g"
  using json_members_split [of f "[]" g "[]"] by (simp add: JSON_stringify_def)

lemma number_toString_no_underscore:
  "c \<in> set (number_toString n) \<Longrightarrow> c \<noteq> CHR ''_''"
  by (auto dest!: number_toString_chars simp: is_digit_def)

lemma number_underscore_split:
  assumes "number_toString m @ CHR ''_'' # r = number_toString n @ CHR ''_'' # r'"
  shows "m = n \<and> r = r'"
proof -
  from separator_split [OF assms, of "\<lambda>c. c = CHR ''_''"] number_toString_no_underscore
  have "number_toString m = number_toString n \<and> r = r'"
    by blast
  then show ?thesis by (auto dest: number_toString_inj)
qed

lemma cacheKey_eqD:
  assumes "cacheKey p l f = cacheKey p' l' f'"
  shows "p = p' \<and> l = l' \<and> f = f'"
proof -
  from assms have "number_toString p @ CHR ''_'' # (number_toString l @ CHR ''_'' # JSON_stringify f)
      = number_toString p' @ CHR ''_'' # (number_toString l' @ CHR ''_'' # JSON_stringify f')"
    by (simp add: cacheKey_def)
  then have "p = p'"
    and "number_toString l @ CHR ''_'' # JSON_stringify f
       = number_toString l' @ CHR ''_'' # JSON_stringify f'"
    using number_underscore_split by blast+
  then have "p = p'" and "l = l'" and "JSON_stringify f = JSON_stringify f'"
    using number_underscore_split by blast+
  then show ?thesis
    by (simp add: JSON_stringify_inj)
qed

text \<open>
  C2, as stated: two logically identical requests produce the same key whatever the
  order in which the fields of the filter were set. \<^verbatim>\<open>JSON.stringify\<close> writes the
  properties in the order of their insertion: the same two properties set in the other
  order give another key.
\<close>

theorem cacheKey_field_order_counterexample:
  "wf_filter [FName ''a'', FCategory ''b''] \<and> wf_filter [FCategory ''b'', FName ''a'']
   \<and> same_filter [FName ''a'', FCategory ''b''] [FCategory ''b'', FName ''a'']
   \<and> cacheKey 1 5 [FName ''a'', FCategory ''b''] \<noteq> cacheKey 1 5 [FCategory ''b'', FName ''a'']"
  by (simp add: wf_filter_def same_filter_def cacheKey_def JSON_stringify_def
      quoteJSONString_def json_escape_def json_escape_char_def)

text \<open>
  C2, amended: the cache key is a function of the page, the limit and the defined
  properties of the filter in the order in which they were set. Two requests have the
  same key exactly when they agree in page, in limit and in that list of properties and
  values; so any difference in page, limit or a field value gives a different key, and
  so does another order of the same fields.
\<close>

theorem cacheKey_inj:
  "(cacheKey p l f = cacheKey p' l' f') = (p = p' \<and> l = l' \<and> f = f')"
  by (auto dest: cacheKey_eqD)

theorem cacheKey_inj_witness:
  "cacheKey 1 5 [FName ''a''] \<noteq> cacheKey 2 5 [FName ''a'']
   \<and> cacheKey 1 5 [FName ''a''] \<noteq> cacheKey 1 6 [FName ''a'']
   \<and> cacheKey 1 5 [FName ''a''] \<noteq> cacheKey 1 5 [FName ''b'']
   \<and> cacheKey 1 5 [FMinPrice 10] \<noteq> cacheKey 1 5 [FMinPrice 11]
   \<and> cacheKey 1 5 [FName ''a''] = cacheKey 1 5 [FName ''a'']"
  using cacheKey_inj [of 1 5 "[FName ''a'']" 2 5 "[FName ''a'']"]
    cacheKey_inj [of 1 5 "[FName ''a'']" 1 6 "[FName ''a'']"]
    cacheKey_inj [of 1 5 "[FName ''a'']" 1 5 "[FName ''b'']"]
    cacheKey_inj [of 1 5 "[FMinPrice 10]" 1 5 "[FMinPrice 11]"]
  by simp

section \<open>Properties of the list query\<close>

lemma holds_build_query:
  "list_all (\<lambda>c. holds ilike c r) (conditions (build_query p l f)) = matches_filter ilike f r"
  by (auto simp: build_query_def matches_filter_def js_truthy_def split: option.splits)

lemma matching_build_query:
  "matching ilike (conditions (build_query p l f)) rs = filter (matches_filter ilike f) rs"
  by (simp add: matching_def holds_build_query)

lemma q_skip_build_query: "q_skip (build_query p l f) = (p - 1) * l"
  by (simp add: build_query_def)

lemma q_take_build_query: "q_take (build_query p l f) = l"
  by (simp add: build_query_def)

lemma Math_ceil_div_pos:
  "1 \<le> d \<Longrightarrow> Math_ceil_div n d = Finite \<lceil>real n / real_of_int d\<rceil>"
  using ceiling_divide_eq_div [of "int n" d, where ?'a = real]
  by (simp add: Math_ceil_div_def)

lemma findAll_miss:
  assumes "cache_get (cacheManager s) (cacheKey (page_of pg) (limit_of pg) f) = None"
    and "\<not> fails OpGetManyAndCount"
  shows "findAll ilike fails s pg f =
     Inr (computed_page ilike (productRepository s) pg f,
          s\<lparr>cacheManager := cache_set (cacheManager s)
              (cacheKey (page_of pg) (limit_of pg) f)
              (computed_page ilike (productRepository s) pg f)\<rparr>)"
  using assms
  by (simp add: findAll_def Let_def getManyAndCount_def matching_build_query
      q_skip_build_query q_take_build_query computed_page_def)

lemma findAll_hit:
  assumes "cache_get (cacheManager s) (cacheKey (page_of pg) (limit_of pg) f) = Some r"
  shows "findAll ilike fails s pg f =
     Inr (r, log_line (LogLine (''Returning cached data for key: ''
                         @ cacheKey (page_of pg) (limit_of pg) f)) s)"
  using assms by (simp add: findAll_def Let_def)

lemma filter_name_without_key:
  "filter_name (without_key k f) = (if k = ''name'' then None else filter_name f)"
proof (induction f)
  case Nil
  then show ?case by (simp add: without_key_def)
next
  case (Cons x xs)
  then show ?case by (cases x) (auto simp: without_key_def)
qed

lemma filter_category_without_key:
  "filter_category (without_key k f) = (if k = ''category'' then None else filter_category f)"
proof (induction f)
  case Nil
  then show ?case by (simp add: without_key_def)
next
  case (Cons x xs)
  then show ?case by (cases x) (auto simp: without_key_def)
qed

lemma filter_minPrice_without_key:
  "filter_minPrice (without_key k f) = (if k = ''minPrice'' then None else filter_minPrice f)"
proof (induction f)
  case Nil
  then show ?case by (simp add: without_key_def)
next
  case (Cons x xs)
  then show ?case by (cases x) (auto simp: without_key_def)
qed

lemma filter_maxPrice_without_key:
  "filter_maxPrice (without_key k f) = (if k = ''maxPrice'' then None else filter_maxPrice f)"
proof (induction f)
  case Nil
  then show ?case by (simp add: without_key_def)
next
  case (Cons x xs)
  then show ?case by (cases x) (auto simp: without_key_def)
qed

lemmas filter_without_key =
  filter_name_without_key filter_category_without_key
  filter_minPrice_without_key filter_maxPrice_without_key

lemma matches_filter_empty_name:
  "filter_name f = Some [] \<Longrightarrow>
     matches_filter ilike f = matches_filter ilike (without_key ''name'' f)"
  by (auto simp: matches_filter_def filter_without_key fun_eq_iff)

lemma matches_filter_empty_category:
  "filter_category f = Some [] \<Longrightarrow>
     matches_filter ilike f = matches_filter ilike (without_key ''category'' f)"
  by (auto simp: matches_filter_def filter_without_key fun_eq_iff)

lemma matches_filter_minPrice:
  "filter_minPrice f = Some lo \<Longrightarrow>
     matches_filter ilike f r = (matches_filter ilike (without_key ''minPrice'' f) r \<and> lo \<le> price r)"
  by (auto simp: matches_filter_def filter_without_key)

lemma matches_filter_maxPrice:
  "filter_maxPrice f = Some hi \<Longrightarrow>
     matches_filter ilike f r = (matches_filter ilike (without_key ''maxPrice'' f) r \<and> price r \<le> hi)"
  by (auto simp: matches_filter_def filter_without_key)

text \<open>
  C10: a supplied \<^verbatim>\<open>minPrice\<close> or \<^verbatim>\<open>maxPrice\<close> of 0 is applied as a price bound,
  while a supplied empty-string name or category imposes no constraint: the call returns
  what it returns for the filter without that property. Stated for calls that run the
  query (no page of this request is cached, the store call succeeds).
\<close>

theorem findAll_falsy_fields:
  assumes "\<not> fails OpGetManyAndCount"
    and "\<forall>g. cache_get (cacheManager s) (cacheKey (page_of pg) (limit_of pg) g) = None"
  shows "(filter_name f = Some [] \<longrightarrow>
            returned (findAll ilike fails s pg f)
              = returned (findAll ilike fails s pg (without_key ''name'' f)))
     \<and> (filter_category f = Some [] \<longrightarrow>
            returned (findAll ilike fails s pg f)
              = returned (findAll ilike fails s pg (without_key ''category'' f)))
     \<and> (filter_minPrice f = Some 0 \<longrightarrow>
          (\<exists>r. returned (findAll ilike fails s pg f) = Some r
             \<and> list_all (\<lambda>p. 0 \<le> price p) (data r)
             \<and> total r = length (filter (\<lambda>p. matches_filter ilike (without_key ''minPrice'' f) p
                                           \<and> 0 \<le> price p) (rows (productRepository s)))))
     \<and> (filter_maxPrice f = Some 0 \<longrightarrow>
          (\<exists>r. returned (findAll ilike fails s pg f) = Some r
             \<and> list_all (\<lambda>p. price p \<le> 0) (data r)
             \<and> total r = length (filter (\<lambda>p. matches_filter ilike (without_key ''maxPrice'' f) p
                                           \<and> price p \<le> 0) (rows (productRepository s)))))"
proof -
  have ret: "returned (findAll ilike fails s pg g)
      = Some (computed_page ilike (productRepository s) pg g)" for g
    using assms by (simp add: findAll_miss returned_def)
  have 1: "filter_name f = Some [] \<longrightarrow>
      computed_page ilike (productRepository s) pg f
        = computed_page ilike (productRepository s) pg (without_key ''name'' f)"
    by (simp add: computed_page_def matches_filter_empty_name)
  have 2: "filter_category f = Some [] \<longrightarrow>
      computed_page ilike (productRepository s) pg f
        = computed_page ilike (productRepository s) pg (without_key ''category'' f)"
    by (simp add: computed_page_def matches_filter_empty_category)
  have 3: "filter_minPrice f = Some 0 \<longrightarrow>
      list_all (\<lambda>p. 0 \<le> price p) (data (computed_page ilike (productRepository s) pg f))
      \<and> total (computed_page ilike (productRepository s) pg f)
          = length (filter (\<lambda>p. matches_filter ilike (without_key ''minPrice'' f) p
                                           \<and> 0 \<le> price p) (rows (productRepository s)))"
  proof
    assume "filter_minPrice f = Some 0"
    then have "matches_filter ilike f
        = (\<lambda>p. matches_filter ilike (without_key ''minPrice'' f) p \<and> 0 \<le> price p)"
      by (simp add: fun_eq_iff matches_filter_minPrice)
    then show "list_all (\<lambda>p. 0 \<le> price p) (data (computed_page ilike (productRepository s) pg f))
      \<and> total (computed_page ilike (productRepository s) pg f)
          = length (filter (\<lambda>p. matches_filter ilike (without_key ''minPrice'' f) p
                                           \<and> 0 \<le> price p) (rows (productRepository s)))"
      by (auto simp: computed_page_def list_all_iff dest!: in_set_takeD in_set_dropD)
  qed
  have 4: "filter_maxPrice f = Some 0 \<longrightarrow>
      list_all (\<lambda>p. price p \<le> 0) (data (computed_page ilike (productRepository s) pg f))
      \<and> total (computed_page ilike (productRepository s) pg f)
          = length (filter (\<lambda>p. matches_filter ilike (without_key ''maxPrice'' f) p
                                           \<and> price p \<le> 0) (rows (productRepository s)))"
  proof
    assume "filter_maxPrice f = Some 0"
    then have "matches_filter ilike f
        = (\<lambda>p. matches_filter ilike (without_key ''maxPrice'' f) p \<and> price p \<le> 0)"
      by (simp add: fun_eq_iff matches_filter_maxPrice)
    then show "list_all (\<lambda>p. price p \<le> 0) (data (computed_page ilike (productRepository s) pg f))
      \<and> total (computed_page ilike (productRepository s) pg f)
          = length (filter (\<lambda>p. matches_filter ilike (without_key ''maxPrice'' f) p
                                           \<and> price p \<le> 0) (rows (productRepository s)))"
      by (auto simp: computed_page_def list_all_iff dest!: in_set_takeD in_set_dropD)
  qed
  from 1 2 3 4 show ?thesis
    by (simp add: ret)
qed

theorem findAll_falsy_fields_witness:
  "\<not> no_faults OpGetManyAndCount
   \<and> (\<forall>g. cache_get (cacheManager seeded_state)
            (cacheKey (page_of no_pagination) (limit_of no_pagination) g) = None)
   \<and> filter_name falsy_filter = Some [] \<and> filter_category falsy_filter = Some []
   \<and> filter_minPrice falsy_filter = Some 0 \<and> filter_maxPrice falsy_filter = Some 0
   \<and> returned (findAll any_ilike no_faults seeded_state no_pagination falsy_filter)
       = returned (findAll any_ilike no_faults seeded_state no_pagination
                     [FCategory [], FMinPrice 0, FMaxPrice 0])
   \<and> (\<exists>r. returned (findAll any_ilike no_faults seeded_state no_pagination falsy_filter)
             = Some r \<and> list_all (\<lambda>p. price p \<le> 0) (data r))"
proof -
  have a: "\<not> no_faults OpGetManyAndCount"
    by (simp add: no_faults_def)
  have b: "\<forall>g. cache_get (cacheManager seeded_state)
            (cacheKey (page_of no_pagination) (limit_of no_pagination) g) = None"
    by (simp add: seeded_state_def empty_cache_def cache_get_def)
  have c: "filter_name falsy_filter = Some []" "filter_category falsy_filter = Some []"
    "filter_minPrice falsy_filter = Some 0" "filter_maxPrice falsy_filter = Some 0"
    "without_key ''name'' falsy_filter = [FCategory [], FMinPrice 0, FMaxPrice 0]"
    by (simp_all add: falsy_filter_def without_key_def)
  note t = findAll_falsy_fields [where fails = no_faults and s = seeded_state
      and pg = no_pagination and f = falsy_filter and ilike = any_ilike, OF a b]
  from t c(1) have n: "returned (findAll any_ilike no_faults seeded_state no_pagination falsy_filter)
       = returned (findAll any_ilike no_faults seeded_state no_pagination
                     (without_key ''name'' falsy_filter))"
    by blast
  from t c(4) obtain r where r:
    "returned (findAll any_ilike no_faults seeded_state no_pagination falsy_filter) = Some r"
    "list_all (\<lambda>p. price p \<le> 0) (data r)"
    by blast
  from r have "\<exists>r. returned (findAll any_ilike no_faults seeded_state no_pagination falsy_filter)
             = Some r \<and> list_all (\<lambda>p. price p \<le> 0) (data r)"
    by blast
  with a b c(1-4) n [unfolded c(5)] show ?thesis
    by blast
qed

section \<open>Properties of cache invalidation\<close>

lemma del_all_entries:
  "entries (fst (del_all c ks)) =
     filter (\<lambda>e. \<not> (fst e \<in> set ks \<and> \<not> del_rejects c (fst e))) (entries c)"
proof (induction ks arbitrary: c)
  case Nil
  then show ?case by simp
next
  case (Cons k ks)
  show ?case
  proof (cases "del_rejects c k")
    case True
    then show ?thesis
      using Cons.IH [of c] by (auto intro: filter_cong)
  next
    case False
    have "del_rejects (cache_del c k) = del_rejects c"
      by (simp add: cache_del_def)
    with False show ?thesis
      using Cons.IH [of "cache_del c k"]
      by (auto simp: cache_del_def intro: filter_cong)
  qed
qed

lemma del_all_store: "store (fst (del_all c ks)) = store c"
  by (induction ks arbitrary: c) (auto simp: cache_del_def)

lemma del_all_del_rejects: "del_rejects (fst (del_all c ks)) = del_rejects c"
  by (induction ks arbitrary: c) (auto simp: cache_del_def)

lemma del_all_rejected: "snd (del_all c ks) = (\<exists>k\<in>set ks. del_rejects c k)"
proof (induction ks arbitrary: c)
  case Nil
  then show ?case by simp
next
  case (Cons k ks)
  have "del_rejects (cache_del c k) = del_rejects c"
    by (simp add: cache_del_def)
  then show ?case
    using Cons.IH [of "cache_del c k"] by auto
qed

lemma set_store_keys: "set (store_keys c) = {k \<in> fst ` set (entries c). prefix ''products_'' k}"
  by (auto simp: store_keys_def)

lemma invalidateCache_try_repo:
  "productRepository (fst (invalidateCache_try s)) = productRepository s"
  by (simp add: invalidateCache_try_def Let_def log_line_def split: cache_store.splits prod.splits)

lemma invalidateCache_try_entries:
  "entries (cacheManager (fst (invalidateCache_try s))) =
     (if store (cacheManager s) = KeysMatching
      then filter (\<lambda>e. \<not> (prefix ''products_'' (fst e) \<and> \<not> del_rejects (cacheManager s) (fst e)))
             (entries (cacheManager s))
      else entries (cacheManager s))"
proof (cases "store (cacheManager s) = KeysMatching")
  case False
  then show ?thesis
    by (simp add: invalidateCache_try_def split: cache_store.splits)
next
  case True
  let ?c = "cacheManager s"
  have e: "entries (fst (del_all ?c (store_keys ?c))) =
      filter (\<lambda>e. \<not> (prefix ''products_'' (fst e) \<and> \<not> del_rejects ?c (fst e))) (entries ?c)"
    unfolding del_all_entries
    by (rule filter_cong) (auto simp: set_store_keys)
  show ?thesis
  proof (cases "store_keys ?c = []")
    case k: True
    then have "\<forall>e\<in>set (entries ?c). \<not> prefix ''products_'' (fst e)"
      using set_store_keys [of ?c] by auto
    then have "filter (\<lambda>e. \<not> (prefix ''products_'' (fst e) \<and> \<not> del_rejects ?c (fst e))) (entries ?c)
        = entries ?c"
      by (simp add: filter_id_conv)
    with True k show ?thesis
      by (simp add: invalidateCache_try_def)
  next
    case k: False
    with True e show ?thesis
      by (simp add: invalidateCache_try_def Let_def log_line_def split: prod.splits)
        (metis fst_conv)
  qed
qed

lemma invalidateCache_total: "\<exists>s'. invalidateCache s = Inr s'"
  by (simp add: invalidateCache_def split: prod.splits option.splits)

lemma invalidateCache_entries:
  assumes "invalidateCache s = Inr s'"
  shows "entries (cacheManager s') =
     (if store (cacheManager s) = KeysMatching
      then filter (\<lambda>e. \<not> (prefix ''products_'' (fst e) \<and> \<not> del_rejects (cacheManager s) (fst e)))
             (entries (cacheManager s))
      else entries (cacheManager s))"
    and "productRepository s' = productRepository s"
  using assms invalidateCache_try_entries [of s] invalidateCache_try_repo [of s]
  by (auto simp: invalidateCache_def log_line_def split: prod.splits option.splits)

lemma invalidateCache_try_exception:
  "snd (invalidateCache_try s) =
     (case store (cacheManager s) of
        NoStore \<Rightarrow> None | KeysNull \<Rightarrow> None
      | KeysNotAFunction \<Rightarrow> Some TypeError | KeysReject \<Rightarrow> Some CacheStoreError
      | KeysMatching \<Rightarrow>
          if \<exists>k\<in>set (store_keys (cacheManager s)). del_rejects (cacheManager s) k
          then Some CacheStoreError else None)"
proof (cases "store (cacheManager s)")
  case KeysMatching
  then show ?thesis
    using del_all_rejected [of "cacheManager s" "store_keys (cacheManager s)"]
    by (auto simp: invalidateCache_try_def Let_def split: prod.splits)
qed (simp_all add: invalidateCache_try_def)

lemma invalidateCache_try_unchanged:
  "store (cacheManager s) \<noteq> KeysMatching \<Longrightarrow> fst (invalidateCache_try s) = s"
  by (simp add: invalidateCache_try_def split: cache_store.splits)

lemma invalidateCache_try_logger_rejected:
  "snd (invalidateCache_try s) \<noteq> None \<Longrightarrow> logger (fst (invalidateCache_try s)) = logger s"
  by (auto simp: invalidateCache_try_def Let_def split: cache_store.splits prod.splits if_splits)

lemma invalidateCache_eq:
  "invalidateCache s =
     Inr (if snd (invalidateCache_try s) = None then fst (invalidateCache_try s)
          else log_line (WarnLine ''Failed to invalidate cache'') (fst (invalidateCache_try s)))"
  by (simp add: invalidateCache_def split: prod.splits option.splits)

lemma fetchFromContentful_total: "\<not> isl (fetchFromContentful toPE fails response s)"
  by (simp add: fetchFromContentful_def Let_def split: sum.splits prod.splits option.splits)

lemma map_of_filter_None:
  "\<not> P k \<Longrightarrow> map_of (filter (\<lambda>e. P (fst e)) es) k = None"
  by (induction es) auto

lemma cacheKey_default: "cacheKey 1 5 [] = ''products_1_5_{}''"
  by code_simp

lemma listed_state_reached:
  "findAll any_ilike no_faults (unlisted_state st rej) no_pagination [] =
     Inr (boot_page, listed_state st rej)"
proof -
  have pl: "page_of no_pagination = 1" "limit_of no_pagination = 5"
    by (simp_all add: page_of_def limit_of_def no_pagination_def)
  have miss: "cache_get (cacheManager (unlisted_state st rej))
      (cacheKey (page_of no_pagination) (limit_of no_pagination) []) = None"
    by (simp add: unlisted_state_def cache_get_def)
  have nf: "\<not> no_faults OpGetManyAndCount"
    by (simp add: no_faults_def)
  have cp: "computed_page any_ilike (productRepository (unlisted_state st rej)) no_pagination []
     = boot_page"
    by (simp add: computed_page_def pl unlisted_state_def matches_filter_def boot_def
        boot_page_def Math_ceil_div_def)
  show ?thesis
    unfolding findAll_miss [of "unlisted_state st rej" no_pagination "[]" no_faults any_ilike, OF miss nf] cp
    by (simp add: pl cacheKey_default unlisted_state_def listed_state_def cache_set_def)
qed

text \<open>
  C8, as stated: for every behaviour of the cache store \<^const>\<open>invalidateCache\<close> returns
  normally, performing no invalidation and logging a warning. With the store absent it
  returns normally and performs no invalidation, but it logs nothing: the guard
  \<^verbatim>\<open>if (store)\<close> skips the block without a word.
\<close>

theorem invalidateCache_silent_counterexample:
  "invalidateCache (listed_state NoStore no_key) = Inr (listed_state NoStore no_key)
   \<and> logger (listed_state NoStore no_key) = []
   \<and> cache_get (cacheManager (listed_state NoStore no_key)) ''products_1_5_{}''
       = Some boot_page"
  by (simp add: invalidateCache_def invalidateCache_try_def listed_state_def cache_get_def)

text \<open>
  C8, amended: \<^const>\<open>invalidateCache\<close> returns normally for every behaviour of the
  cache store and leaves the repository alone. With the store absent, or with
  \<^verbatim>\<open>keys\<close> resolving to \<^verbatim>\<open>null\<close>, it changes nothing and logs nothing. With
  \<^verbatim>\<open>keys\<close> unsupported or rejecting it removes nothing and logs a warning. With the keys
  enumerated it removes every entry under the prefix whose deletion does not reject, and
  logs a warning when a deletion rejects. So \<^const>\<open>softDelete\<close> fails exactly when its
  repository call fails, and \<^const>\<open>fetchFromContentful\<close> never fails.
\<close>

theorem invalidateCache_never_fails:
  "\<not> isl (invalidateCache s)
   \<and> productRepository (projr (invalidateCache s)) = productRepository s
   \<and> (store (cacheManager s) = NoStore \<or> store (cacheManager s) = KeysNull \<longrightarrow>
        projr (invalidateCache s) = s)
   \<and> (store (cacheManager s) = KeysNotAFunction \<or> store (cacheManager s) = KeysReject \<longrightarrow>
        projr (invalidateCache s) = log_line (WarnLine ''Failed to invalidate cache'') s)
   \<and> (store (cacheManager s) = KeysMatching \<longrightarrow>
        entries (cacheManager (projr (invalidateCache s))) =
          filter (\<lambda>e. \<not> (prefix ''products_'' (fst e) \<and> \<not> del_rejects (cacheManager s) (fst e)))
            (entries (cacheManager s))
        \<and> ((\<exists>k\<in>set (store_keys (cacheManager s)). del_rejects (cacheManager s) k) \<longrightarrow>
             logger (projr (invalidateCache s))
               = logger s @ [WarnLine ''Failed to invalidate cache'']))
   \<and> isl (softDelete fails now s ident) = fails (OpSoftDelete ident)
   \<and> \<not> isl (fetchFromContentful toProductEntity fails response s)"
proof -
  obtain s' where s': "invalidateCache s = Inr s'"
    using invalidateCache_total by blast
  have 1: "\<not> isl (invalidateCache s)"
    by (simp add: s')
  have 2: "productRepository (projr (invalidateCache s)) = productRepository s"
    using invalidateCache_entries(2) [OF s'] by (simp add: s')
  have 3: "store (cacheManager s) = NoStore \<or> store (cacheManager s) = KeysNull \<longrightarrow>
        projr (invalidateCache s) = s"
    by (auto simp: invalidateCache_eq invalidateCache_try_exception
        invalidateCache_try_unchanged)
  have 4: "store (cacheManager s) = KeysNotAFunction \<or> store (cacheManager s) = KeysReject \<longrightarrow>
        projr (invalidateCache s) = log_line (WarnLine ''Failed to invalidate cache'') s"
    by (auto simp: invalidateCache_eq invalidateCache_try_exception
        invalidateCache_try_unchanged)
  have 5: "store (cacheManager s) = KeysMatching \<longrightarrow>
        entries (cacheManager (projr (invalidateCache s))) =
          filter (\<lambda>e. \<not> (prefix ''products_'' (fst e) \<and> \<not> del_rejects (cacheManager s) (fst e)))
            (entries (cacheManager s))
        \<and> ((\<exists>k\<in>set (store_keys (cacheManager s)). del_rejects (cacheManager s) k) \<longrightarrow>
             logger (projr (invalidateCache s))
               = logger s @ [WarnLine ''Failed to invalidate cache''])"
  proof (intro impI conjI)
    assume km: "store (cacheManager s) = KeysMatching"
    show "entries (cacheManager (projr (invalidateCache s))) =
          filter (\<lambda>e. \<not> (prefix ''products_'' (fst e) \<and> \<not> del_rejects (cacheManager s) (fst e)))
            (entries (cacheManager s))"
      using invalidateCache_entries(1) [OF s'] km by (simp add: s')
    assume "\<exists>k\<in>set (store_keys (cacheManager s)). del_rejects (cacheManager s) k"
    with km have ex: "snd (invalidateCache_try s) = Some CacheStoreError"
      by (simp add: invalidateCache_try_exception)
    then have "logger (fst (invalidateCache_try s)) = logger s"
      by (simp add: invalidateCache_try_logger_rejected)
    with ex show "logger (projr (invalidateCache s))
               = logger s @ [WarnLine ''Failed to invalidate cache'']"
      by (simp add: invalidateCache_eq log_line_def)
  qed
  have 6: "isl (softDelete fails now s ident) = fails (OpSoftDelete ident)"
    by (simp add: softDelete_def invalidateCache_eq)
  from 1 2 3 4 5 6 fetchFromContentful_total show ?thesis
    by blast
qed

theorem invalidateCache_never_fails_witness:
  "store (cacheManager (listed_state KeysReject no_key)) = KeysReject
   \<and> \<not> isl (invalidateCache (listed_state KeysReject no_key))
   \<and> projr (invalidateCache (listed_state KeysReject no_key))
       = log_line (WarnLine ''Failed to invalidate cache'') (listed_state KeysReject no_key)
   \<and> store (cacheManager (listed_state KeysMatching every_key)) = KeysMatching
   \<and> (\<exists>k\<in>set (store_keys (cacheManager (listed_state KeysMatching every_key))).
         del_rejects (cacheManager (listed_state KeysMatching every_key)) k)
   \<and> logger (projr (invalidateCache (listed_state KeysMatching every_key)))
       = [WarnLine ''Failed to invalidate cache'']
   \<and> store (cacheManager (listed_state NoStore no_key)) = NoStore
   \<and> projr (invalidateCache (listed_state NoStore no_key)) = listed_state NoStore no_key"
proof -
  have a: "store (cacheManager (listed_state KeysReject no_key)) = KeysReject"
    and b: "store (cacheManager (listed_state KeysMatching every_key)) = KeysMatching"
    and c: "store (cacheManager (listed_state NoStore no_key)) = NoStore"
    and d: "\<exists>k\<in>set (store_keys (cacheManager (listed_state KeysMatching every_key))).
         del_rejects (cacheManager (listed_state KeysMatching every_key)) k"
    and e: "logger (listed_state KeysMatching every_key) = []"
    by (simp_all add: listed_state_def store_keys_def every_key_def)
  have "\<not> isl (invalidateCache (listed_state KeysReject no_key))
     \<and> projr (invalidateCache (listed_state KeysReject no_key))
       = log_line (WarnLine ''Failed to invalidate cache'') (listed_state KeysReject no_key)"
    using invalidateCache_never_fails
      [of "listed_state KeysReject no_key" no_faults 0 0 already_mapped "Inl HttpError"] a
    by simp
  moreover have "logger (projr (invalidateCache (listed_state KeysMatching every_key)))
       = [WarnLine ''Failed to invalidate cache'']"
    using invalidateCache_never_fails
      [of "listed_state KeysMatching every_key" no_faults 0 0 already_mapped "Inl HttpError"]
      b d e
    by simp
  moreover have "projr (invalidateCache (listed_state NoStore no_key))
       = listed_state NoStore no_key"
    using invalidateCache_never_fails
      [of "listed_state NoStore no_key" no_faults 0 0 already_mapped "Inl HttpError"] c
    by simp
  ultimately show ?thesis
    using a b c d by blast
qed

text \<open>
  C9, as stated: after a successful \<^const>\<open>softDelete\<close>, when the store enumerates
  its keys, every entry under the prefix \<^verbatim>\<open>products_\<close> is gone. It is not when the
  deletion of the entry rejects: the \<^verbatim>\<open>catch\<close> logs a warning, \<^const>\<open>softDelete\<close>
  returns normally and the cached page stays readable.
\<close>

theorem softDelete_rejected_deletion_counterexample:
  "\<not> isl (softDelete no_faults 7 (listed_state KeysMatching every_key) 0)
   \<and> store (cacheManager (listed_state KeysMatching every_key)) = KeysMatching
   \<and> prefix ''products_'' ''products_1_5_{}''
   \<and> cache_get (cacheManager (listed_state KeysMatching every_key)) ''products_1_5_{}''
       = Some boot_page
   \<and> cache_get (cacheManager (projr (softDelete no_faults 7
         (listed_state KeysMatching every_key) 0))) ''products_1_5_{}'' = Some boot_page"
  by (simp add: softDelete_def no_faults_def invalidateCache_def invalidateCache_try_def
      store_keys_def listed_state_def every_key_def cache_get_def log_line_def)

text \<open>
  C9, amended: after a successful \<^const>\<open>softDelete\<close>, when the store enumerates its
  keys, every entry under the prefix \<^verbatim>\<open>products_\<close> whose deletion does not reject has
  been removed from the cache before \<^const>\<open>softDelete\<close> returns.
\<close>

theorem softDelete_invalidates:
  assumes "softDelete fails now s ident = Inr s'"
    and "store (cacheManager s) = KeysMatching"
    and "prefix ''products_'' k"
    and "\<not> del_rejects (cacheManager s) k"
  shows "cache_get (cacheManager s') k = None"
proof -
  let ?s1 = "s\<lparr>productRepository := repo_softDelete ident now (productRepository s)\<rparr>"
  from assms(1) have inv: "invalidateCache ?s1 = Inr s'"
    by (simp add: softDelete_def split: if_splits)
  have "entries (cacheManager s') =
      filter (\<lambda>e. \<not> (prefix ''products_'' (fst e) \<and> \<not> del_rejects (cacheManager s) (fst e)))
        (entries (cacheManager s))"
    using invalidateCache_entries(1) [OF inv] assms(2) by simp
  then show ?thesis
    using assms(3,4)
      map_of_filter_None [of "\<lambda>k. \<not> (prefix ''products_'' k \<and> \<not> del_rejects (cacheManager s) k)" k]
    by (simp add: cache_get_def)
qed

theorem softDelete_invalidates_witness:
  "softDelete no_faults 7 (listed_state KeysMatching no_key) 0
     = Inr (projr (softDelete no_faults 7 (listed_state KeysMatching no_key) 0))
   \<and> store (cacheManager (listed_state KeysMatching no_key)) = KeysMatching
   \<and> prefix ''products_'' ''products_1_5_{}''
   \<and> \<not> del_rejects (cacheManager (listed_state KeysMatching no_key)) ''products_1_5_{}''
   \<and> cache_get (cacheManager (listed_state KeysMatching no_key)) ''products_1_5_{}''
        = Some boot_page
   \<and> cache_get (cacheManager (projr (softDelete no_faults 7
          (listed_state KeysMatching no_key) 0))) ''products_1_5_{}'' = None"
proof -
  have a: "softDelete no_faults 7 (listed_state KeysMatching no_key) 0
     = Inr (projr (softDelete no_faults 7 (listed_state KeysMatching no_key) 0))"
    by (simp add: softDelete_def no_faults_def invalidateCache_eq)
  have b: "store (cacheManager (listed_state KeysMatching no_key)) = KeysMatching"
    and c: "prefix ''products_'' ''products_1_5_{}''"
    and d: "\<not> del_rejects (cacheManager (listed_state KeysMatching no_key)) ''products_1_5_{}''"
    and e: "cache_get (cacheManager (listed_state KeysMatching no_key)) ''products_1_5_{}''
        = Some boot_page"
    by (simp_all add: listed_state_def no_key_def cache_get_def)
  from softDelete_invalidates [OF a b c d] a b c d e show ?thesis
    by simp
qed

section \<open>The list query in the states the service reaches\<close>

text \<open>
  A page enters the cache from the query path only, so each record of a cached page had
  no soft-delete marker when the page was computed: \<^const>\<open>pages_live\<close> holds in every
  state the service reaches. What the repository holds for that product by now is not
  looked at when the page is served.
\<close>

lemma pages_live_filter:
  "pages_live c \<Longrightarrow> entries c' = filter P (entries c) \<Longrightarrow> pages_live c'"
  by (auto simp: pages_live_def list_all_iff)

lemma computed_page_live:
  "list_all (\<lambda>p. deletedAt p = None) (data (computed_page ilike repo pg f))"
  by (auto simp: computed_page_def list_all_iff matches_filter_def
      dest!: in_set_takeD in_set_dropD)

lemma pages_live_get:
  "pages_live c \<Longrightarrow> cache_get c k = Some r \<Longrightarrow> list_all (\<lambda>p. deletedAt p = None) (data r)"
  by (auto simp: pages_live_def cache_get_def list_all_iff dest!: map_of_SomeD)

lemma findAll_pages_live:
  assumes "pages_live (cacheManager s)" and "findAll ilike fails s pg f = Inr (r, s')"
  shows "list_all (\<lambda>p. deletedAt p = None) (data r) \<and> pages_live (cacheManager s')"
proof (cases "cache_get (cacheManager s) (cacheKey (page_of pg) (limit_of pg) f)")
  case None
  with assms(2) have nf: "\<not> fails OpGetManyAndCount"
    by (auto simp: findAll_def Let_def split: if_splits)
  from assms(2) findAll_miss [of s pg f fails ilike] None nf
  have r: "r = computed_page ilike (productRepository s) pg f"
    and s': "s' = s\<lparr>cacheManager := cache_set (cacheManager s)
              (cacheKey (page_of pg) (limit_of pg) f) r\<rparr>"
    by auto
  have "list_all (\<lambda>p. deletedAt p = None) (data r)"
    unfolding r by (rule computed_page_live)
  moreover from this assms(1) have "pages_live (cacheManager s')"
    by (auto simp: s' pages_live_def cache_set_def list_all_iff)
  ultimately show ?thesis ..
next
  case (Some c)
  with assms(2) findAll_hit [of s pg f c ilike fails]
  have "r = c" and "cacheManager s' = cacheManager s"
    by (auto simp: log_line_def)
  with assms(1) Some show ?thesis
    by (auto dest: pages_live_get)
qed

lemma invalidateCache_pages_live:
  assumes "pages_live (cacheManager s)" and "invalidateCache s = Inr s'"
  shows "pages_live (cacheManager s')"
  using invalidateCache_entries(1) [OF assms(2)] assms(1)
  by (auto simp: pages_live_def list_all_iff split: if_splits)

lemma fetchFromContentful_cases:
  assumes "fetchFromContentful toPE fails response s = Inr s'"
  shows "cacheManager s' = cacheManager s
       \<or> (\<exists>s1. cacheManager s1 = cacheManager s \<and> invalidateCache s1 = Inr s')"
  using assms
  by (auto simp: fetchFromContentful_def Let_def log_line_def
      split: sum.splits prod.splits option.splits)

lemma reachable_pages_live: "reachable s \<Longrightarrow> pages_live (cacheManager s)"
proof (induction rule: reachable.induct)
  case (start s)
  then show ?case by (simp add: pages_live_def)
next
  case (list s ilike fails pg f r s')
  then show ?case using findAll_pages_live by blast
next
  case (delete s fails now ident s')
  then show ?case
    by (auto simp: softDelete_def split: if_splits
        intro: invalidateCache_pages_live [rotated])
next
  case (sync s toProductEntity fails response s')
  from fetchFromContentful_cases [OF sync.hyps(2)] sync.IH show ?case
    by (auto intro: invalidateCache_pages_live [rotated])
next
  case (expire s keep)
  then show ?case by (auto simp: pages_live_def list_all_iff)
next
  case (store_change s repo)
  then show ?case by simp
qed

lemma reachable_listed_state: "reachable (listed_state st rej)"
  by (rule reachable.list [OF reachable.start listed_state_reached])
    (simp add: unlisted_state_def)

lemma same_id_same_row:
  assumes "wf_repository repo" "e \<in> set (rows repo)" "r \<in> set (rows repo)"
    and "productId r = productId e"
  shows "r = e"
  using assms by (auto simp: wf_repository_def distinct_map dest: inj_onD)

lemma stale_state_reached:
  "softDelete no_faults 7 (listed_state NoStore no_key) 0 = Inr stale_state"
  by (simp add: softDelete_def no_faults_def invalidateCache_def invalidateCache_try_def
      listed_state_def stale_state_def repo_softDelete_def boot_def)

lemma reachable_stale_state: "reachable stale_state"
  by (rule reachable.delete [OF reachable_listed_state stale_state_reached])

lemma findAll_stale_state:
  "findAll ilike fails stale_state no_pagination [] =
     Inr (boot_page, log_line (LogLine ''Returning cached data for key: products_1_5_{}'')
            stale_state)"
proof -
  have pl: "page_of no_pagination = 1" "limit_of no_pagination = 5"
    by (simp_all add: page_of_def limit_of_def no_pagination_def)
  have hit: "cache_get (cacheManager stale_state)
      (cacheKey (page_of no_pagination) (limit_of no_pagination) []) = Some boot_page"
    by (simp add: pl cacheKey_default stale_state_def cache_get_def)
  show ?thesis
    using findAll_hit [OF hit, of ilike fails] by (simp add: pl cacheKey_default)
qed

lemma seeded_state_miss: "cache_get (cacheManager seeded_state) k = None"
  by (simp add: seeded_state_def cache_get_def empty_cache_def)

lemma seeded_state_rows: "rows (productRepository seeded_state) = seeded_rows"
  by (simp add: seeded_state_def)

lemma no_faults_query: "\<not> no_faults OpGetManyAndCount"
  by (simp add: no_faults_def)

lemma seeded_live:
  "filter (matches_filter ilike []) seeded_rows = take 12 seeded_rows"
  by (simp add: seeded_rows_def matches_filter_def
      upt_rec [of _ "numeral _"] upt_rec [of 0 "numeral _"])

lemma seeded_ids:
  "map productId (take 12 seeded_rows) = [0, 1, 2, 3, 4, 5, 6, 7, 8, 9, 10, 11]"
  by (simp add: seeded_rows_def upt_rec [of _ "numeral _"] upt_rec [of 0 "numeral _"])

lemma wf_seeded: "wf_repository (productRepository seeded_state)"
  by (simp add: wf_repository_def seeded_state_def seeded_rows_def
      upt_rec [of _ "numeral _"] upt_rec [of 0 "numeral _"])

text \<open>
  C1, as stated: for every pagination request and every filter, no soft-deleted product
  appears in the \<open>data\<close> array that \<^const>\<open>findAll\<close> returns. A page that is in the
  cache is returned as it was computed. Here the default page is computed and cached
  while product 0 is live; the cache manager has no \<^verbatim>\<open>store\<close> property, so
  \<^verbatim>\<open>softDelete(0)\<close> marks the product and removes nothing from the cache; the next
  default list request returns product 0, which the repository holds soft-deleted.
\<close>

theorem findAll_lists_soft_deleted_counterexample:
  "findAll any_ilike no_faults (unlisted_state NoStore no_key) no_pagination []
     = Inr (boot_page, listed_state NoStore no_key)
   \<and> softDelete no_faults 7 (listed_state NoStore no_key) 0 = Inr stale_state
   \<and> reachable stale_state
   \<and> rows (productRepository stale_state) = [boot\<lparr>deletedAt := Some 7\<rparr>]
   \<and> returned (findAll any_ilike no_faults stale_state no_pagination []) = Some boot_page
   \<and> data boot_page = [boot] \<and> productId boot = 0"
  by (simp add: listed_state_reached stale_state_reached reachable_stale_state
      findAll_stale_state returned_def)
    (simp add: stale_state_def boot_page_def boot_def)

text \<open>
  C1, amended: for every pagination request and every filter whose page is not in the
  cache, when the store call does not throw, \<^const>\<open>findAll\<close> returns, and the
  \<open>data\<close> array holds only rows of the repository whose soft-delete marker is absent;
  the count counts no soft-deleted row; and, the identifiers of the repository being
  unique, no identifier of a soft-deleted product is among those returned. Here \<open>p\<close> and
  \<open>l\<close> are the page and the limit of the request, 1 and 5 when it gives none.
\<close>

theorem findAll_excludes_soft_deleted:
  assumes "p = (case dto_page pg of None \<Rightarrow> 1 | Some x \<Rightarrow> x)"
    and "l = (case dto_limit pg of None \<Rightarrow> 5 | Some x \<Rightarrow> x)"
    and "cache_get (cacheManager s) (cacheKey p l f) = None"
    and "\<not> fails OpGetManyAndCount"
  shows "\<exists>r s'. findAll ilike fails s pg f = Inr (r, s')
     \<and> set (data r) \<subseteq> {x \<in> set (rows (productRepository s)). deletedAt x = None}
     \<and> total r \<le> length (filter (\<lambda>x. deletedAt x = None) (rows (productRepository s)))
     \<and> (wf_repository (productRepository s) \<longrightarrow>
          (\<forall>x\<in>set (rows (productRepository s)).
             deletedAt x \<noteq> None \<longrightarrow> productId x \<notin> productId ` set (data r)))"
proof -
  let ?r = "computed_page ilike (productRepository s) pg f"
  have pl: "page_of pg = p" "limit_of pg = l"
    using assms(1,2) by (simp_all add: page_of_def limit_of_def)
  from findAll_miss [of s pg f fails ilike] assms(3,4)
  have run: "findAll ilike fails s pg f =
     Inr (?r, s\<lparr>cacheManager := cache_set (cacheManager s) (cacheKey p l f) ?r\<rparr>)"
    by (simp add: pl)
  have live: "set (data ?r) \<subseteq> {x \<in> set (rows (productRepository s)). deletedAt x = None}"
    by (auto simp: computed_page_def matches_filter_def dest!: in_set_takeD in_set_dropD)
  have "filter (matches_filter ilike f) (rows (productRepository s))
      = filter (matches_filter ilike f)
          (filter (\<lambda>x. deletedAt x = None) (rows (productRepository s)))"
    by (auto simp: matches_filter_def intro: filter_cong)
  moreover have "length (filter (matches_filter ilike f)
          (filter (\<lambda>x. deletedAt x = None) (rows (productRepository s))))
      \<le> length (filter (\<lambda>x. deletedAt x = None) (rows (productRepository s)))"
    by (rule length_filter_le)
  ultimately have count:
    "total ?r \<le> length (filter (\<lambda>x. deletedAt x = None) (rows (productRepository s)))"
    by (simp add: computed_page_def)
  have ids: "productId x \<notin> productId ` set (data ?r)"
    if wf: "wf_repository (productRepository s)"
      and x: "x \<in> set (rows (productRepository s))" "deletedAt x \<noteq> None" for x
  proof
    assume "productId x \<in> productId ` set (data ?r)"
    then obtain y where y: "y \<in> set (data ?r)" "productId y = productId x"
      by auto
    from y(1) live have "y \<in> set (rows (productRepository s))" "deletedAt y = None"
      by auto
    with same_id_same_row [OF wf x(1), of y] y(2) x(2) show False
      by auto
  qed
  show ?thesis
    apply (rule exI [of _ ?r])
    apply (rule exI [of _ "s\<lparr>cacheManager := cache_set (cacheManager s) (cacheKey p l f) ?r\<rparr>"])
    apply (intro conjI impI ballI)
       apply (rule run)
      apply (rule live)
     apply (rule count)
    apply (rule ids, assumption, assumption, assumption)
    done
qed

theorem findAll_excludes_soft_deleted_witness:
  "cache_get (cacheManager seeded_state) (cacheKey 1 20 []) = None
   \<and> \<not> no_faults OpGetManyAndCount
   \<and> wf_repository (productRepository seeded_state)
   \<and> map productId (filter (\<lambda>x. deletedAt x \<noteq> None) (rows (productRepository seeded_state)))
       = [12, 13, 14]
   \<and> (\<exists>r s'. findAll any_ilike no_faults seeded_state
                \<lparr>dto_page = Some 1, dto_limit = Some 20\<rparr> [] = Inr (r, s')
        \<and> map productId (data r) = [0, 1, 2, 3, 4, 5, 6, 7, 8, 9, 10, 11]
        \<and> 12 \<notin> productId ` set (data r) \<and> 13 \<notin> productId ` set (data r)
        \<and> 14 \<notin> productId ` set (data r)
        \<and> total r \<le> 12)"
proof -
  let ?pg = "\<lparr>dto_page = Some 1, dto_limit = Some 20\<rparr>"
  have miss: "cache_get (cacheManager seeded_state) (cacheKey 1 20 []) = None"
    by (rule seeded_state_miss)
  have rws: "rows (productRepository seeded_state) = seeded_rows"
    by (rule seeded_state_rows)
  have dead: "map productId (filter (\<lambda>x. deletedAt x \<noteq> None)
       (rows (productRepository seeded_state))) = [12, 13, 14]"
    by (simp add: rws seeded_rows_def upt_rec [of _ "numeral _"] upt_rec [of 0 "numeral _"])
  have live: "length (filter (\<lambda>x. deletedAt x = None) (rows (productRepository seeded_state)))
      = 12"
    by (simp add: rws seeded_rows_def upt_rec [of _ "numeral _"] upt_rec [of 0 "numeral _"])
  have mem: "\<lparr>productId = i, name = ''shoe'', category = ''shoes'', price = 20,
                deletedAt = Some 1, contentfulId = None\<rparr> \<in> set (rows (productRepository seeded_state))"
    if "i \<in> {12, 13, 14}" for i
    using that by (auto simp: rws seeded_rows_def)
  from findAll_excludes_soft_deleted [where pg = ?pg and p = 1 and l = 20 and s = seeded_state
      and f = "[]" and fails = no_faults and ilike = any_ilike, OF _ _ miss no_faults_query]
  obtain r s' where r:
    "findAll any_ilike no_faults seeded_state ?pg [] = Inr (r, s')"
    "total r \<le> length (filter (\<lambda>x. deletedAt x = None) (rows (productRepository seeded_state)))"
    "wf_repository (productRepository seeded_state) \<longrightarrow>
          (\<forall>x\<in>set (rows (productRepository seeded_state)).
             deletedAt x \<noteq> None \<longrightarrow> productId x \<notin> productId ` set (data r))"
    by auto
  have ex: "i \<notin> productId ` set (data r)" if "i \<in> {12, 13, 14}" for i
    using r(3) wf_seeded mem [OF that] by fastforce
  have pl: "page_of ?pg = 1" "limit_of ?pg = 20"
    by (simp_all add: page_of_def limit_of_def)
  have "findAll any_ilike no_faults seeded_state ?pg [] =
     Inr (computed_page any_ilike (productRepository seeded_state) ?pg [],
          seeded_state\<lparr>cacheManager := cache_set (cacheManager seeded_state)
              (cacheKey (page_of ?pg) (limit_of ?pg) [])
              (computed_page any_ilike (productRepository seeded_state) ?pg [])\<rparr>)"
    by (rule findAll_miss) (rule seeded_state_miss no_faults_query)+
  with r(1) have "r = computed_page any_ilike (productRepository seeded_state) ?pg []"
    by simp
  then have d: "map productId (data r) = [0, 1, 2, 3, 4, 5, 6, 7, 8, 9, 10, 11]"
    by (simp add: computed_page_def pl rws seeded_live seeded_ids)
  have e: "12 \<notin> productId ` set (data r)" "13 \<notin> productId ` set (data r)"
    "14 \<notin> productId ` set (data r)"
    by (rule ex, simp)+
  have t: "total r \<le> 12"
    using r(2) unfolding live .
  have main: "\<exists>r s'. findAll any_ilike no_faults seeded_state ?pg [] = Inr (r, s')
        \<and> map productId (data r) = [0, 1, 2, 3, 4, 5, 6, 7, 8, 9, 10, 11]
        \<and> 12 \<notin> productId ` set (data r) \<and> 13 \<notin> productId ` set (data r)
        \<and> 14 \<notin> productId ` set (data r)
        \<and> total r \<le> 12"
    by (rule exI [of _ r], rule exI [of _ s'], intro conjI) (rule r(1) d e t)+
  show ?thesis
    by (intro conjI) (rule miss no_faults_query wf_seeded dead main)+
qed

lemma seeded_matches:
  "filter (matches_filter ilike [FCategory ''shoes'', FMinPrice 10, FMaxPrice 50]) seeded_rows
   = take 12 seeded_rows"
  by (simp add: seeded_rows_def matches_filter_def
      upt_rec [of _ "numeral _"] upt_rec [of 0 "numeral _"])

text \<open>
  C6, as stated: for every page from 1 on and every limit, \<^const>\<open>findAll\<close> returns
  the window of the matching records with their count and with \<open>totalPages\<close> the
  ceiling of the count divided by the limit. A page that is in the cache is returned as it
  was computed: after \<^verbatim>\<open>softDelete(0)\<close> with a cache manager that has no \<^verbatim>\<open>store\<close>
  property no row of the repository matches, and the default list request returns one
  record and the count 1. And with the limit 0 the source computes
  \<^verbatim>\<open>Math.ceil(total / 0)\<close>: for the 12 matches of the seeded set \<open>totalPages\<close> is
  \<^verbatim>\<open>Infinity\<close>, which is no number of pages.
\<close>

theorem findAll_window_counterexample:
  "reachable stale_state
   \<and> filter (matches_filter any_ilike []) (rows (productRepository stale_state)) = []
   \<and> (\<exists>s'. findAll any_ilike no_faults stale_state no_pagination [] = Inr (boot_page, s'))
   \<and> data boot_page = [boot] \<and> total boot_page = 1
   \<and> reachable seeded_state
   \<and> (\<exists>r s'. findAll any_ilike no_faults seeded_state \<lparr>dto_page = Some 1, dto_limit = Some 0\<rparr>
                [FCategory ''shoes'', FMinPrice 10, FMaxPrice 50] = Inr (r, s')
        \<and> total r = 12 \<and> totalPages r = PosInfinity)"
proof -
  let ?pg = "\<lparr>dto_page = Some 1, dto_limit = Some 0\<rparr>"
  let ?f = "[FCategory ''shoes'', FMinPrice 10, FMaxPrice 50]"
  have a: "filter (matches_filter any_ilike []) (rows (productRepository stale_state)) = []"
    by (simp add: stale_state_def matches_filter_def)
  have b: "\<exists>s'. findAll any_ilike no_faults stale_state no_pagination [] = Inr (boot_page, s')"
    by (simp add: findAll_stale_state)
  have c: "data boot_page = [boot]" "total boot_page = 1"
    by (simp_all add: boot_page_def)
  have re: "reachable seeded_state"
    by (rule reachable.start) (simp add: seeded_state_def empty_cache_def)
  have pl: "page_of ?pg = 1" "limit_of ?pg = 0"
    by (simp_all add: page_of_def limit_of_def)
  have run: "findAll any_ilike no_faults seeded_state ?pg ?f =
     Inr (computed_page any_ilike (productRepository seeded_state) ?pg ?f,
          seeded_state\<lparr>cacheManager := cache_set (cacheManager seeded_state)
              (cacheKey (page_of ?pg) (limit_of ?pg) ?f)
              (computed_page any_ilike (productRepository seeded_state) ?pg ?f)\<rparr>)"
    by (rule findAll_miss) (rule seeded_state_miss no_faults_query)+
  have len: "length seeded_rows = 15"
    by (simp add: seeded_rows_def)
  have t: "total (computed_page any_ilike (productRepository seeded_state) ?pg ?f) = 12"
    by (simp add: computed_page_def seeded_state_rows seeded_matches len)
  have tp: "totalPages (computed_page any_ilike (productRepository seeded_state) ?pg ?f)
      = PosInfinity"
    by (simp add: computed_page_def seeded_state_rows seeded_matches len pl Math_ceil_div_def)
  have d: "\<exists>r s'. findAll any_ilike no_faults seeded_state ?pg ?f = Inr (r, s')
        \<and> total r = 12 \<and> totalPages r = PosInfinity"
    by (intro exI conjI) (rule run t tp)+
  show ?thesis
    by (intro conjI) (rule reachable_stale_state a b c re d)+
qed

text \<open>
  C6, amended: for every page from 1 on and every limit from 1 on, when the page of the
  request is not in the cache and the store call does not throw, \<^const>\<open>findAll\<close>
  returns the window of the matching rows of the repository from offset
  \<open>(page - 1) * limit\<close>, at most \<open>limit\<close> of them, with the count of all matching rows,
  with \<open>totalPages\<close> the ceiling of that count divided by the limit, and with the page
  and the limit of the request. Here \<open>p\<close> and \<open>l\<close> are the page and the limit of the
  request, 1 and 5 when it gives none. The witness is the example of the specification
  (12 matches, limit 5, page 1: 5 items, total 12, 3 pages) and page 2 with limit 4.
\<close>

theorem findAll_window:
  assumes "p = (case dto_page pg of None \<Rightarrow> 1 | Some x \<Rightarrow> x)"
    and "l = (case dto_limit pg of None \<Rightarrow> 5 | Some x \<Rightarrow> x)"
    and "1 \<le> p" and "1 \<le> l"
    and "cache_get (cacheManager s) (cacheKey p l f) = None"
    and "\<not> fails OpGetManyAndCount"
  shows "\<exists>r s'. findAll ilike fails s pg f = Inr (r, s')
     \<and> data r = take (nat l) (drop (nat ((p - 1) * l))
                  (filter (matches_filter ilike f) (rows (productRepository s))))
     \<and> int (length (data r)) \<le> l
     \<and> total r = length (filter (matches_filter ilike f) (rows (productRepository s)))
     \<and> totalPages r = Finite \<lceil>real (total r) / real_of_int l\<rceil>
     \<and> page r = p \<and> limit r = l"
proof -
  let ?r = "computed_page ilike (productRepository s) pg f"
  have pl: "page_of pg = p" "limit_of pg = l"
    using assms(1,2) by (simp_all add: page_of_def limit_of_def)
  from findAll_miss [of s pg f fails ilike] assms(5,6)
  have run: "findAll ilike fails s pg f =
     Inr (?r, s\<lparr>cacheManager := cache_set (cacheManager s) (cacheKey p l f) ?r\<rparr>)"
    by (simp add: pl)
  have shape: "data ?r = take (nat l) (drop (nat ((p - 1) * l))
                  (filter (matches_filter ilike f) (rows (productRepository s))))
     \<and> int (length (data ?r)) \<le> l
     \<and> total ?r = length (filter (matches_filter ilike f) (rows (productRepository s)))
     \<and> totalPages ?r = Finite \<lceil>real (total ?r) / real_of_int l\<rceil>
     \<and> page ?r = p \<and> limit ?r = l"
    using assms(3,4) by (simp add: computed_page_def pl Math_ceil_div_pos)
  show ?thesis
    by (rule exI [of _ ?r],
        rule exI [of _ "s\<lparr>cacheManager := cache_set (cacheManager s) (cacheKey p l f) ?r\<rparr>"],
        rule conjI [OF run], rule shape)
qed

theorem findAll_window_witness:
  "cache_get (cacheManager seeded_state)
     (cacheKey 1 5 [FCategory ''shoes'', FMinPrice 10, FMaxPrice 50]) = None
   \<and> cache_get (cacheManager seeded_state)
     (cacheKey 2 4 [FCategory ''shoes'', FMinPrice 10, FMaxPrice 50]) = None
   \<and> \<not> no_faults OpGetManyAndCount
   \<and> (\<exists>r s'. findAll any_ilike no_faults seeded_state \<lparr>dto_page = Some 1, dto_limit = Some 5\<rparr>
                [FCategory ''shoes'', FMinPrice 10, FMaxPrice 50] = Inr (r, s')
        \<and> map productId (data r) = [0, 1, 2, 3, 4]
        \<and> total r = 12 \<and> totalPages r = Finite 3 \<and> page r = 1 \<and> limit r = 5)
   \<and> (\<exists>r s'. findAll any_ilike no_faults seeded_state \<lparr>dto_page = Some 2, dto_limit = Some 4\<rparr>
                [FCategory ''shoes'', FMinPrice 10, FMaxPrice 50] = Inr (r, s')
        \<and> map productId (data r) = [4, 5, 6, 7]
        \<and> total r = 12 \<and> totalPages r = Finite 3 \<and> page r = 2 \<and> limit r = 4)"
proof -
  let ?f = "[FCategory ''shoes'', FMinPrice 10, FMaxPrice 50]"
  have len: "length seeded_rows = 15"
    by (simp add: seeded_rows_def)
  have c5: "\<lceil>(12::real) / 5\<rceil> = 3" and c4: "\<lceil>(12::real) / 4\<rceil> = 3"
    by (simp_all add: ceiling_eq_iff)
  from findAll_window [where ilike = any_ilike and f = ?f and s = seeded_state
      and pg = "\<lparr>dto_page = Some 1, dto_limit = Some 5\<rparr>" and p = 1 and l = 5
      and fails = no_faults, OF _ _ _ _ seeded_state_miss no_faults_query]
  obtain r s' where r:
    "findAll any_ilike no_faults seeded_state \<lparr>dto_page = Some 1, dto_limit = Some 5\<rparr> ?f
       = Inr (r, s')"
    "data r = take (nat 5) (drop (nat ((1 - 1) * 5))
                  (filter (matches_filter any_ilike ?f) (rows (productRepository seeded_state))))"
    "total r = length (filter (matches_filter any_ilike ?f) (rows (productRepository seeded_state)))"
    "totalPages r = Finite \<lceil>real (total r) / real_of_int 5\<rceil>"
    "page r = 1" "limit r = 5"
    by auto
  have r1: "map productId (data r) = [0, 1, 2, 3, 4]"
    using arg_cong [OF seeded_ids, of "take 5"]
    by (simp add: r(2) seeded_state_rows seeded_matches take_map)
  have r2: "total r = 12"
    by (simp add: r(3) seeded_state_rows seeded_matches len)
  have r3: "totalPages r = Finite 3"
    by (simp add: r(4) r2 c5)
  from findAll_window [where ilike = any_ilike and f = ?f and s = seeded_state
      and pg = "\<lparr>dto_page = Some 2, dto_limit = Some 4\<rparr>" and p = 2 and l = 4
      and fails = no_faults, OF _ _ _ _ seeded_state_miss no_faults_query]
  obtain q t' where q:
    "findAll any_ilike no_faults seeded_state \<lparr>dto_page = Some 2, dto_limit = Some 4\<rparr> ?f
       = Inr (q, t')"
    "data q = take (nat 4) (drop (nat ((2 - 1) * 4))
                  (filter (matches_filter any_ilike ?f) (rows (productRepository seeded_state))))"
    "total q = length (filter (matches_filter any_ilike ?f) (rows (productRepository seeded_state)))"
    "totalPages q = Finite \<lceil>real (total q) / real_of_int 4\<rceil>"
    "page q = 2" "limit q = 4"
    by auto
  have q1: "map productId (data q) = [4, 5, 6, 7]"
    using arg_cong [OF seeded_ids, of "\<lambda>xs. take 4 (drop 4 xs)"]
    by (simp add: q(2) seeded_state_rows seeded_matches take_map drop_map)
  have q2: "total q = 12"
    by (simp add: q(3) seeded_state_rows seeded_matches len)
  have q3: "totalPages q = Finite 3"
    by (simp add: q(4) q2 c4)
  have first: "\<exists>r s'. findAll any_ilike no_faults seeded_state
                \<lparr>dto_page = Some 1, dto_limit = Some 5\<rparr> ?f = Inr (r, s')
        \<and> map productId (data r) = [0, 1, 2, 3, 4]
        \<and> total r = 12 \<and> totalPages r = Finite 3 \<and> page r = 1 \<and> limit r = 5"
    by (rule exI [of _ r], rule exI [of _ s'], intro conjI) (rule r(1) r1 r2 r3 r(5) r(6))+
  have second: "\<exists>r s'. findAll any_ilike no_faults seeded_state
                \<lparr>dto_page = Some 2, dto_limit = Some 4\<rparr> ?f = Inr (r, s')
        \<and> map productId (data r) = [4, 5, 6, 7]
        \<and> total r = 12 \<and> totalPages r = Finite 3 \<and> page r = 2 \<and> limit r = 4"
    by (rule exI [of _ q], rule exI [of _ t'], intro conjI) (rule q(1) q1 q2 q3 q(5) q(6))+
  show ?thesis
    by (intro conjI) (rule seeded_state_miss no_faults_query first second)+
qed

section \<open>Properties of the sync job\<close>

lemma sync_loop_append:
  "sync_loop toPE fails repo (xs @ ys) =
     (case sync_loop toPE fails repo xs of
        (repo1, None) \<Rightarrow> sync_loop toPE fails repo1 ys
      | (repo1, Some e) \<Rightarrow> (repo1, Some e))"
  by (induction xs arbitrary: repo) (auto split: sum.splits)

text \<open>
  C3, as stated: a failure on one external record does not abort the batch, every record
  after the failing one is still attempted. The \<^verbatim>\<open>try\<close> encloses the whole loop: with
  a first record whose mapping throws, the second record is never stored, where the
  fail-soft loop of the specification stores it.
\<close>

theorem sync_aborts_counterexample:
  "rows (productRepository (projr (fetchFromContentful already_mapped no_faults
      (Inr [Inl AdapterError, Inr boot_repriced]) fresh_state))) = []
   \<and> rows (sync_loop_failsoft already_mapped no_faults (productRepository fresh_state)
      [Inl AdapterError, Inr boot_repriced])
     = [\<lparr>productId = 0, name = ''boot'', category = ''shoes'', price = 45,
         deletedAt = None, contentfulId = Some ''X1''\<rparr>]"
  by (simp add: fetchFromContentful_def upsert_def already_mapped_def fresh_state_def
      log_line_def no_faults_def repo_findOne_def repo_save_def boot_repriced_def)

text \<open>
  C3, amended: a failure while mapping or persisting one external record is caught and
  logged as an error and the job returns normally; the records before the failing one
  stay processed, the failing record and every record after it are not processed.
\<close>

theorem sync_stops_at_first_failure:
  assumes "sync_loop toProductEntity fails (productRepository s) xs = (repo1, None)"
    and "upsert toProductEntity fails repo1 bad = Inl e"
  shows "\<exists>s'. fetchFromContentful toProductEntity fails (Inr (xs @ bad # ys)) s = Inr s'
     \<and> productRepository s' = repo1
     \<and> logger s' = logger s @ [LogLine ''Fetching products from Contentful...'',
                                ErrorLine ''Error fetching from Contentful'']"
  using assms
  by (simp add: fetchFromContentful_def Let_def sync_loop_append log_line_def)

theorem sync_stops_at_first_failure_witness:
  "sync_loop already_mapped no_faults (productRepository fresh_state) [Inr boot_repriced]
     = (\<lparr>rows = [boot\<lparr>price := 45\<rparr>], next_id = 1\<rparr>, None)
   \<and> upsert already_mapped no_faults \<lparr>rows = [boot\<lparr>price := 45\<rparr>], next_id = 1\<rparr>
        (Inl AdapterError) = Inl AdapterError
   \<and> (\<exists>s'. fetchFromContentful already_mapped no_faults
          (Inr ([Inr boot_repriced] @ Inl AdapterError # [Inr boot_repriced])) fresh_state
          = Inr s'
        \<and> productRepository s' = \<lparr>rows = [boot\<lparr>price := 45\<rparr>], next_id = 1\<rparr>
        \<and> logger s' = [LogLine ''Fetching products from Contentful...'',
                         ErrorLine ''Error fetching from Contentful''])"
proof -
  have a: "sync_loop already_mapped no_faults (productRepository fresh_state)
      [Inr boot_repriced] = (\<lparr>rows = [boot\<lparr>price := 45\<rparr>], next_id = 1\<rparr>, None)"
    by (simp add: upsert_def already_mapped_def fresh_state_def no_faults_def
        repo_findOne_def repo_save_def boot_repriced_def boot_def)
  have b: "upsert already_mapped no_faults \<lparr>rows = [boot\<lparr>price := 45\<rparr>], next_id = 1\<rparr>
        (Inl AdapterError) = Inl AdapterError"
    by (simp add: upsert_def already_mapped_def)
  have c: "logger fresh_state = []"
    by (simp add: fresh_state_def)
  from sync_stops_at_first_failure [OF a b, of "[Inr boot_repriced]"] a b c
  show ?thesis by simp
qed

lemma productRepository_log_line: "productRepository (log_line e s) = productRepository s"
  by (simp add: log_line_def)

lemma cacheManager_log_line: "cacheManager (log_line e s) = cacheManager s"
  by (simp add: log_line_def)

lemma invalidateCache_case:
  "(case invalidateCache x of Inl e \<Rightarrow> y e | Inr s1 \<Rightarrow> Inr s1) = invalidateCache x"
  using invalidateCache_total [of x] by auto

text \<open>
  The path on which every record went through: the job ends with
  \<^const>\<open>invalidateCache\<close> (line 127, \<^verbatim>\<open>// Invalidate cache after sync\<close>), so that,
  with a store that enumerates its keys, no entry under the prefix whose deletion goes
  through is left.
\<close>

lemma sync_success_invalidates:
  assumes "sync_loop toProductEntity fails (productRepository s) items = (repo1, None)"
  shows "fetchFromContentful toProductEntity fails (Inr items) s
       = invalidateCache
           (log_line (LogLine (''Successfully fetched and updated ''
                        @ decimal_digits (length items) @ '' products.''))
              ((log_line (LogLine ''Fetching products from Contentful...'') s)
                 \<lparr>productRepository := repo1\<rparr>))
     \<and> productRepository (projr (fetchFromContentful toProductEntity fails (Inr items) s))
         = repo1
     \<and> (\<forall>k. store (cacheManager s) = KeysMatching \<and> prefix ''products_'' k
              \<and> \<not> del_rejects (cacheManager s) k \<longrightarrow>
            cache_get (cacheManager
              (projr (fetchFromContentful toProductEntity fails (Inr items) s))) k = None)"
proof -
  let ?mid = "log_line (LogLine (''Successfully fetched and updated ''
                        @ decimal_digits (length items) @ '' products.''))
              ((log_line (LogLine ''Fetching products from Contentful...'') s)
                 \<lparr>productRepository := repo1\<rparr>)"
  obtain s' where s': "invalidateCache ?mid = Inr s'"
    using invalidateCache_total by blast
  from assms have run: "fetchFromContentful toProductEntity fails (Inr items) s
      = invalidateCache ?mid"
    by (simp add: fetchFromContentful_def Let_def productRepository_log_line
        invalidateCache_case)
  have c: "cacheManager ?mid = cacheManager s" and r: "productRepository ?mid = repo1"
    by (simp_all add: productRepository_log_line cacheManager_log_line)
  have "cache_get (cacheManager s') k = None"
    if "store (cacheManager s) = KeysMatching" "prefix ''products_'' k"
      "\<not> del_rejects (cacheManager s) k" for k
    using invalidateCache_entries(1) [OF s', unfolded c] that
      map_of_filter_None [of "\<lambda>k. \<not> (prefix ''products_'' k \<and> \<not> del_rejects (cacheManager s) k)" k]
    by (simp add: cache_get_def)
  with run s' invalidateCache_entries(2) [OF s', unfolded r] show ?thesis
    by (simp only: sum.sel simp_thms) blast
qed

text \<open>
  C4: on completion of the sync job, after every record or after only some of them
  (partial success), cache invalidation for the product namespace has been triggered
  before the job returns. The source does not do so on partial success. The default
  list page is cached with product X1 at price 30, the store enumerates its keys and no
  deletion rejects; the listing holds X1 repriced to 45 and a record whose mapping
  throws. The job returns normally, the repository holds the price 45, and the cached
  page with the price 30 is still readable under its key: the call of
  \<^const>\<open>invalidateCache\<close> stands inside the \<^verbatim>\<open>try\<close>, after the loop, and the
  exception of the second record jumps over it. With the first record alone the same job
  removes the page, as \<^const>\<open>softDelete\<close> does after its change
  (\<^verbatim>\<open>// Invalidate all cache on change\<close>).
\<close>

theorem partial_sync_keeps_cache:
  "\<not> isl (fetchFromContentful already_mapped no_faults
      (Inr [Inr boot_repriced, Inl AdapterError]) (listed_state KeysMatching no_key))
   \<and> rows (productRepository (projr (fetchFromContentful already_mapped no_faults
      (Inr [Inr boot_repriced, Inl AdapterError]) (listed_state KeysMatching no_key))))
     = [boot\<lparr>price := 45\<rparr>]
   \<and> cache_get (cacheManager (projr (fetchFromContentful already_mapped no_faults
      (Inr [Inr boot_repriced, Inl AdapterError]) (listed_state KeysMatching no_key))))
      ''products_1_5_{}'' = Some boot_page
   \<and> data boot_page = [boot] \<and> price boot = 30
   \<and> cache_get (cacheManager (projr (fetchFromContentful already_mapped no_faults
      (Inr [Inr boot_repriced]) (listed_state KeysMatching no_key))))
      ''products_1_5_{}'' = None
   \<and> cache_get (cacheManager (projr (softDelete no_faults 7
      (listed_state KeysMatching no_key) 0))) ''products_1_5_{}'' = None"
  by (simp add: fetchFromContentful_def upsert_def already_mapped_def listed_state_def
      log_line_def no_faults_def repo_findOne_def repo_update_def set_fields_def
      boot_repriced_def boot_def boot_page_def invalidateCache_def invalidateCache_try_def
      store_keys_def no_key_def cache_get_def cache_del_def softDelete_def
      repo_softDelete_def)

section \<open>Idempotence of the sync loop\<close>





lemma productId_set_fields [simp]: "productId (set_fields pf r) = productId r"
  by (simp add: set_fields_def)

lemma deletedAt_set_fields [simp]: "deletedAt (set_fields pf r) = deletedAt r"
  by (simp add: set_fields_def)

lemma contentfulId_set_fields [simp]:
  "contentfulId (set_fields pf r) = Some (f_contentfulId pf)"
  by (simp add: set_fields_def)

lemma set_fields_twice [simp]: "set_fields q (set_fields p r) = set_fields q r"
  by (simp add: set_fields_def)









































end
